theory Spec2Isabelle
  imports Main "HOL-Library.Sublist"
begin

section \<open>Python values\<close>

text \<open>
  A Python \<open>str\<close> is modelled as a HOL \<open>string\<close>; a \<open>char\<close> stands for a code point
  below 256. The functions of this section are the built-in operations the controller
  calls, with the semantics of CPython.
\<close>

text \<open>The exceptions that the modelled code raises or lets through.\<close>

datatype py_error =
    ValueError | IndexError | KeyError | SyntaxError | CalledProcessError | ParseError

text \<open>
  \<open>str.isspace\<close> and the class \<open>\s\<close> of a \<open>str\<close> pattern, on code points below 256:
  tab to carriage return, the four separators \<open>0x1c\<close> to \<open>0x1f\<close>, space, \<open>0x85\<close> and
  \<open>0xa0\<close>. The class \<open>\d\<close> on the same range is \<open>0\<close> to \<open>9\<close>.
\<close>

definition py_isspace :: "char \<Rightarrow> bool" where
  "py_isspace c = (of_char c \<in> {9, 10, 11, 12, 13, 28, 29, 30, 31, 32, 133, 160 :: nat})"

definition py_isdigit :: "char \<Rightarrow> bool" where
  "py_isdigit c = (48 \<le> (of_char c :: nat) \<and> (of_char c :: nat) \<le> 57)"

text \<open>Truth value of an \<open>Optional[str]\<close> argument: \<open>None\<close> and \<open>""\<close> are both falsy.\<close>

definition truthy :: "string option \<Rightarrow> bool" where
  "truthy v = (case v of None \<Rightarrow> False | Some s \<Rightarrow> s \<noteq> [])"

text \<open>\<open>sep.join(parts)\<close>.\<close>

fun py_join :: "string \<Rightarrow> string list \<Rightarrow> string" where
  "py_join sep [] = []"
| "py_join sep [p] = p"
| "py_join sep (p # q # ps) = p @ sep @ py_join sep (q # ps)"

text \<open>\<open>s.startswith(p)\<close>, \<open>s.endswith(p)\<close> and \<open>sub in s\<close>.\<close>

definition py_startswith :: "string \<Rightarrow> string \<Rightarrow> bool" where
  "py_startswith s p = prefix p s"

definition py_endswith :: "string \<Rightarrow> string \<Rightarrow> bool" where
  "py_endswith s p = suffix p s"

fun py_in :: "string \<Rightarrow> string \<Rightarrow> bool" where
  "py_in sub [] = (sub = [])"
| "py_in sub (c # cs) = (prefix sub (c # cs) \<or> py_in sub cs)"

text \<open>
  \<open>s.split(sep)\<close> for a non-empty separator: the occurrences of \<open>sep\<close> are found from
  the left and do not overlap. \<open>cur\<close> is the piece read so far.
\<close>

fun split_from :: "string \<Rightarrow> string \<Rightarrow> string \<Rightarrow> string list" where
  "split_from sep cur [] = [cur]"
| "split_from sep cur (c # cs) =
     (if sep \<noteq> [] \<and> prefix sep (c # cs)
      then cur # split_from sep [] (drop (length sep - 1) cs)
      else split_from sep (cur @ [c]) cs)"

definition py_split :: "string \<Rightarrow> string \<Rightarrow> string list" where
  "py_split sep s = split_from sep [] s"

text \<open>\<open>s.split(sep, 1)\<close>: at most one split, at the first occurrence.\<close>

fun split_once_from :: "string \<Rightarrow> string \<Rightarrow> string \<Rightarrow> string list" where
  "split_once_from sep cur [] = [cur]"
| "split_once_from sep cur (c # cs) =
     (if sep \<noteq> [] \<and> prefix sep (c # cs)
      then [cur, drop (length sep - 1) cs]
      else split_once_from sep (cur @ [c]) cs)"

definition py_split1 :: "string \<Rightarrow> string \<Rightarrow> string list" where
  "py_split1 sep s = split_once_from sep [] s"

text \<open>\<open>s.replace(old, "")\<close>: every occurrence of \<open>old\<close>, from the left, is removed.\<close>

fun py_remove_all :: "string \<Rightarrow> string \<Rightarrow> string" where
  "py_remove_all old [] = []"
| "py_remove_all old (c # cs) =
     (if old \<noteq> [] \<and> prefix old (c # cs)
      then py_remove_all old (drop (length old - 1) cs)
      else c # py_remove_all old cs)"

text \<open>\<open>s.strip(chars)\<close> and \<open>s.strip()\<close>.\<close>

definition py_strip_chars :: "string \<Rightarrow> string \<Rightarrow> string" where
  "py_strip_chars chars s =
     rev (dropWhile (\<lambda>c. c \<in> set chars) (rev (dropWhile (\<lambda>c. c \<in> set chars) s)))"

definition py_strip :: "string \<Rightarrow> string" where
  "py_strip s = rev (dropWhile py_isspace (rev (dropWhile py_isspace s)))"

text \<open>
  \<open>int(s)\<close>: surrounding whitespace is dropped, one sign is allowed, and the digits may
  be grouped by single underscores. Anything else is a \<open>ValueError\<close>. The whitespace
  that \<open>int\<close> drops is narrower than \<open>str.isspace\<close>: the separators \<open>0x1c\<close> to
  \<open>0x1f\<close> are not accepted. (The limit that recent interpreters put on the number of
  digits is not modelled.)
\<close>

definition int_space :: "char \<Rightarrow> bool" where
  "int_space c = (of_char c \<in> {9, 10, 11, 12, 13, 32, 133, 160 :: nat})"

definition digit_val :: "char \<Rightarrow> int" where
  "digit_val c = int (of_char c) - 48"

definition decimal :: "string \<Rightarrow> int" where
  "decimal ds = foldl (\<lambda>a c. 10 * a + digit_val c) 0 ds"

definition py_int :: "string \<Rightarrow> py_error + int" where
  "py_int s =
     (let t = rev (dropWhile int_space (rev (dropWhile int_space s)));
          neg = (case t of c # r \<Rightarrow> c = CHR ''-'' | [] \<Rightarrow> False);
          body = (case t of c # r \<Rightarrow> if c = CHR ''-'' \<or> c = CHR ''+'' then r else t | [] \<Rightarrow> t);
          groups = py_split ''_'' body
      in if list_all (\<lambda>g. g \<noteq> [] \<and> list_all py_isdigit g) groups
         then Inr ((if neg then - 1 else 1) * decimal (concat groups))
         else Inl ValueError)"

text \<open>\<open>str(i)\<close> for an integer: its decimal digits, after a minus sign when negative.\<close>

definition digit_char :: "nat \<Rightarrow> char" where
  "digit_char d = ''0123456789'' ! d"

fun digits_of :: "nat \<Rightarrow> string" where
  "digits_of n = (if n < 10 then [digit_char n] else digits_of (n div 10) @ [digit_char (n mod 10)])"

definition show_int :: "int \<Rightarrow> string" where
  "show_int i = (if i < 0 then CHR ''-'' # digits_of (nat (- i)) else digits_of (nat i))"

section \<open>Screen identity\<close>

text \<open>
  \<open>_sanitize_activity_name\<close> applies two substitutions. The first removes every match
  of the pattern \<open>\s*/?\s*t\d+\<close>. A match at the start of a string is found by reading
  greedily: whitespace, an optional slash, whitespace, the letter \<open>t\<close>, a non-empty run of
  digits. No character serves in two consecutive parts of the pattern, so backtracking
  finds no match that the greedy reading misses. \<open>match_task_id\<close> returns what follows
  the match.
\<close>

definition match_digits :: "string \<Rightarrow> string option" where
  "match_digits s = (if takeWhile py_isdigit s = [] then None else Some (dropWhile py_isdigit s))"

definition match_t :: "string \<Rightarrow> string option" where
  "match_t s = (case s of c # r \<Rightarrow> if c = CHR ''t'' then match_digits r else None | [] \<Rightarrow> None)"

definition match_task_id :: "string \<Rightarrow> string option" where
  "match_task_id s =
     (let s1 = dropWhile py_isspace s;
          s2 = (case s1 of c # r \<Rightarrow> if c = CHR ''/'' then r else s1 | [] \<Rightarrow> s1)
      in match_t (dropWhile py_isspace s2))"

text \<open>
  \<open>re.sub(pattern, '', name)\<close>: the matches are taken from the left and do not overlap;
  where no match starts, the character is kept.
\<close>

function strip_task_ids :: "string \<Rightarrow> string" where
  "strip_task_ids [] = []"
| "strip_task_ids (c # cs) =
     (case match_task_id (c # cs) of
        Some rest \<Rightarrow> strip_task_ids rest
      | None \<Rightarrow> c # strip_task_ids cs)"
  by pat_completeness auto
termination
proof (relation "measure length")
  show "wf (measure length)" by simp
next
  fix c cs
  show "(cs, c # cs) \<in> measure length" by simp
next
  fix c :: char and cs rest :: string
  assume a: "match_task_id (c # cs) = Some rest"
  define s1 where "s1 = dropWhile py_isspace (c # cs)"
  define s2 where "s2 = (case s1 of c # r \<Rightarrow> if c = CHR ''/'' then r else s1 | [] \<Rightarrow> s1)"
  define s3 where "s3 = dropWhile py_isspace s2"
  have 1: "length s1 \<le> length (c # cs)"
    unfolding s1_def by (rule length_dropWhile_le)
  have 2: "length s2 \<le> length s1"
    by (auto simp: s2_def split: list.splits)
  have 3: "length s3 \<le> length s2"
    unfolding s3_def by (rule length_dropWhile_le)
  from a have m: "match_t s3 = Some rest"
    unfolding match_task_id_def Let_def s3_def s2_def s1_def by simp
  then obtain r where r: "s3 = CHR ''t'' # r" "match_digits r = Some rest"
    by (cases s3) (auto simp: match_t_def split: if_splits)
  from r(2) have "rest = dropWhile py_isdigit r"
    by (auto simp: match_digits_def split: if_splits)
  then have "length rest \<le> length r"
    by (simp add: length_dropWhile_le)
  with r(1) have "length rest < length s3" by simp
  with 1 2 3 show "(rest, c # cs) \<in> measure length" by simp
qed

text \<open>
  The second substitution replaces each of the characters
  \<open>\ / : * ? " < > |\<close> by an underscore.
\<close>

definition illegal_chars :: "char set" where
  "illegal_chars =
     set [CHR 0x5C, CHR ''/'', CHR '':'', CHR ''*'', CHR ''?'', CHR 0x22, CHR ''<'', CHR ''>'', CHR ''|'']"

definition replace_illegal :: "char \<Rightarrow> char" where
  "replace_illegal c = (if c \<in> illegal_chars then CHR ''_'' else c)"

definition sanitize_activity_name :: "string \<Rightarrow> string" where
  "sanitize_activity_name name = map replace_illegal (strip_task_ids name)"

section \<open>Element queries and their cache key\<close>

text \<open>
  The three keyword arguments \<open>resource_id\<close>, \<open>text\<close>, \<open>class_name\<close> of
  \<open>find_element\<close>, each defaulting to \<open>None\<close>.
\<close>

record query =
  resource_id :: "string option"
  elem_text :: "string option"
  class_name :: "string option"

text \<open>\<open>_get_element_key\<close>: the parts are appended in the order id, text, class.\<close>

definition get_element_key :: "query \<Rightarrow> string" where
  "get_element_key q =
     py_join ''_''
       ((if truthy (resource_id q) then [''id='' @ the (resource_id q)] else []) @
        (if truthy (elem_text q) then [''text='' @ the (elem_text q)] else []) @
        (if truthy (class_name q) then [''class='' @ the (class_name q)] else []))"

text \<open>
  A call site supplies the predicates as keyword arguments, in any order; Python binds
  them by name. \<open>bind_query\<close> is that binding: a keyword names a parameter at most once,
  and a parameter that is not named keeps its default \<open>None\<close>.
\<close>

datatype keyword = Resource_id | Text | Class_name

definition bind_query :: "(keyword \<times> string) list \<Rightarrow> query" where
  "bind_query kws =
     \<lparr>resource_id = map_of kws Resource_id,
      elem_text = map_of kws Text,
      class_name = map_of kws Class_name\<rparr>"

text \<open>
  The key as the specification words it: the present predicates, in the fixed order
  id, text, class, concatenated (with the separator \<open>_\<close> the code puts between them).
\<close>

definition present_part :: "string \<Rightarrow> string option \<Rightarrow> string list" where
  "present_part label v =
     (case v of None \<Rightarrow> [] | Some s \<Rightarrow> if s = [] then [] else [label @ ''='' @ s])"

definition canonical_key :: "string option \<Rightarrow> string option \<Rightarrow> string option \<Rightarrow> string" where
  "canonical_key rid txt cls =
     py_join ''_'' (present_part ''id'' rid @ present_part ''text'' txt @ present_part ''class'' cls)"

section \<open>The UI tree\<close>

text \<open>
  An \<open>xml.etree.ElementTree.Element\<close>: tag, attributes, children in document order.
\<close>

datatype element =
  Element (tag: string) (attrib: "(string \<times> string) list") (children: "element list")

text \<open>\<open>elem.get(key)\<close>.\<close>

definition elem_get :: "element \<Rightarrow> string \<Rightarrow> string option" where
  "elem_get e k = map_of (attrib e) k"

text \<open>
  The elements that the step \<open>.//\<close> visits: every element below the root, in document
  order, the root itself left out.
\<close>

fun descendants :: "element \<Rightarrow> element list" where
  "descendants (Element t a cs) = concat (map (\<lambda>c. c # descendants c) cs)"

text \<open>
  The conditions that \<open>find_element\<close> collects: attribute name and required value, for
  each truthy argument, in the order id, text, class. The path is \<open>.//node\<close>, followed,
  when there is a condition, by the conditions joined with \<open>and\<close> inside brackets.
\<close>

definition conditions :: "query \<Rightarrow> (string \<times> string) list" where
  "conditions q =
     (if truthy (resource_id q) then [(''resource-id'', the (resource_id q))] else []) @
     (if truthy (elem_text q) then [(''text'', the (elem_text q))] else []) @
     (if truthy (class_name q) then [(''class'', the (class_name q))] else [])"

definition condition_str :: "string \<times> string \<Rightarrow> string" where
  "condition_str kv = ''@'' @ fst kv @ ''='' @ [CHR 0x22] @ snd kv @ [CHR 0x22]"

definition xpath :: "query \<Rightarrow> string" where
  "xpath q =
     ''.//node'' @
     (if conditions q = [] then []
      else ''['' @ py_join '' and '' (map condition_str (conditions q)) @ '']'')"

text \<open>
  \<open>root.find(xpath)\<close>, as \<open>xml.etree.ElementPath\<close> evaluates the paths built above.
  Its predicate parser knows the forms \<open>[@attribute='value']\<close>, \<open>[@attribute]\<close>,
  \<open>[tag]\<close>, \<open>[tag='value']\<close> and \<open>[position]\<close>; a predicate of any other shape, such
  as two comparisons joined by \<open>and\<close>, is refused with \<open>SyntaxError("invalid
  predicate")\<close>. So:
  \<^item> without a condition, the first \<open>node\<close> element below the root is returned;
  \<^item> with one condition, the first \<open>node\<close> element whose attribute equals the value;
  \<^item> with two or three conditions, \<open>SyntaxError\<close> is raised.
  A value that contains a double quote ends the quoted token early, and what the
  tokenizer makes of the rest depends on the value; that case is not modelled here but
  taken from the parameter \<open>quoted\<close>, which receives the path and the root.
\<close>

definition has_quote :: "(string \<times> string) list \<Rightarrow> bool" where
  "has_quote conds = list_ex (\<lambda>kv. CHR 0x22 \<in> set (snd kv)) conds"

definition root_find ::
  "(string \<Rightarrow> element \<Rightarrow> py_error + element option) \<Rightarrow> element \<Rightarrow> query
     \<Rightarrow> py_error + element option" where
  "root_find quoted root q =
     (if has_quote (conditions q) then quoted (xpath q) root
      else case conditions q of
             [] \<Rightarrow> Inr (find (\<lambda>e. tag e = ''node'') (descendants root))
           | [kv] \<Rightarrow>
               Inr (find (\<lambda>e. tag e = ''node'' \<and> elem_get e (fst kv) = Some (snd kv))
                      (descendants root))
           | kv # kv' # kvs \<Rightarrow> Inl SyntaxError)"

text \<open>
  What the specification means by a node matching a query: a \<open>node\<close> element on which
  every supplied predicate holds, by exact string equality.
\<close>

definition matches :: "query \<Rightarrow> element \<Rightarrow> bool" where
  "matches q e =
     (tag e = ''node'' \<and> list_all (\<lambda>kv. elem_get e (fst kv) = Some (snd kv)) (conditions q))"

section \<open>Bounds and centre\<close>

text \<open>
  Lines 183 to 190 of \<open>find_element\<close>: the bounds string is stripped of brackets and
  split at \<open>][\<close>; each corner is split at the comma and unpacked into two integers.
  Unpacking anything but two values, like a failed \<open>int\<close>, is a \<open>ValueError\<close>; a
  missing second corner is an \<open>IndexError\<close>.
\<close>

definition parse_pair :: "string \<Rightarrow> py_error + (int \<times> int)" where
  "parse_pair p =
     (case py_split '','' p of
        [] \<Rightarrow> Inl ValueError
      | [a] \<Rightarrow> Inl ValueError
      | [a, b] \<Rightarrow>
          (case py_int a of
             Inl e \<Rightarrow> Inl e
           | Inr x \<Rightarrow> (case py_int b of Inl e \<Rightarrow> Inl e | Inr y \<Rightarrow> Inr (x, y)))
      | a # b # c # ps \<Rightarrow> Inl ValueError)"

definition element_center :: "string \<Rightarrow> py_error + (int \<times> int)" where
  "element_center bounds =
     (case py_split ''][''  (py_strip_chars ''[]'' bounds) of
        [] \<Rightarrow> Inl IndexError
      | c0 # rest \<Rightarrow>
          (case parse_pair c0 of
             Inl e \<Rightarrow> Inl e
           | Inr (x1, y1) \<Rightarrow>
               (case rest of
                  [] \<Rightarrow> Inl IndexError
                | c1 # _ \<Rightarrow>
                    (case parse_pair c1 of
                       Inl e \<Rightarrow> Inl e
                     | Inr (x2, y2) \<Rightarrow> Inr ((x1 + x2) div 2, (y1 + y2) div 2)))))"

text \<open>The bounds string \<open>[x1,y1][x2,y2]\<close> of four integers.\<close>

definition bounds_str :: "int \<Rightarrow> int \<Rightarrow> int \<Rightarrow> int \<Rightarrow> string" where
  "bounds_str x1 y1 x2 y2 =
     ''['' @ show_int x1 @ '','' @ show_int y1 @ '']['' @ show_int x2 @ '','' @ show_int y2 @ '']''"

section \<open>The controller and its cache\<close>

text \<open>
  Coordinates are pairs of integers; a screen cache maps element keys to coordinates;
  \<open>activity_cache\<close> maps screen identities to screen caches.
\<close>

type_synonym coords = "int \<times> int"
type_synonym screen_cache = "string \<rightharpoonup> coords"

text \<open>
  A file of the cache directory. \<open>json.dump\<close> and \<open>json.load\<close> are taken as inverse to
  each other on screen caches: a file written by \<open>_save_activity_cache\<close> holds the
  dictionary that was dumped. The snapshot file holds the pulled tree; any other content
  is bytes that \<open>json.load\<close> rejects.
\<close>

datatype file_content = CacheJson screen_cache | UiDump element | Garbage

text \<open>
  The directory is a list of named files, in the order in which \<open>os.listdir\<close> reports
  them. Opening a file for writing replaces its content, or adds the file.
\<close>

fun write_file :: "string \<Rightarrow> file_content \<Rightarrow> (string \<times> file_content) list
    \<Rightarrow> (string \<times> file_content) list" where
  "write_file name c [] = [(name, c)]"
| "write_file name c ((n, c') # fs) =
     (if n = name then (name, c) # fs else (n, c') # write_file name c fs)"

text \<open>
  The fields of \<open>UiAutomatorController\<close> that the locator uses, the cache directory,
  and a counter of the calls of \<open>_get_ui_hierarchy\<close>.
\<close>

record controller =
  device :: string
  use_cache :: bool
  activity_cache :: "string \<rightharpoonup> screen_cache"
  current_activity :: "string option"
  files :: "(string \<times> file_content) list"
  snapshot_calls :: nat

text \<open>
  What the device answers during one call. \<open>focus_match\<close> is the first group of the
  first line of the \<open>dumpsys\<close> output that matches one of the two patterns, or \<open>None\<close>
  when no line matches. \<open>ui_dump\<close> is the outcome of the dump and pull: a command fails,
  or the pulled file does not parse, or it parses to a tree. \<open>quoted\<close> is explained at
  \<open>root_find\<close>.
\<close>

datatype snapshot = AdbFailed | Malformed | Tree element

record device_env =
  focus_match :: "string option"
  ui_dump :: snapshot
  quoted :: "string \<Rightarrow> element \<Rightarrow> py_error + element option"

text \<open>\<open>_get_current_activity\<close>: the sanitized identity, or the empty string.\<close>

definition get_current_activity :: "device_env \<Rightarrow> controller \<Rightarrow> string \<times> controller" where
  "get_current_activity env s =
     (case focus_match env of
        Some group1 \<Rightarrow>
          (let activity = sanitize_activity_name (py_strip group1)
           in (activity, s\<lparr>current_activity := Some activity\<rparr>))
      | None \<Rightarrow> ([], s))"

text \<open>\<open>_save_activity_cache\<close>.\<close>

definition cache_file_name :: "string \<Rightarrow> string \<Rightarrow> string" where
  "cache_file_name dev activity_name = dev @ ''_'' @ activity_name @ ''.json''"

definition save_activity_cache :: "controller \<Rightarrow> string \<Rightarrow> screen_cache \<Rightarrow> controller" where
  "save_activity_cache s activity_name cache_data =
     (if \<not> use_cache s then s
      else s\<lparr>files :=
               write_file (cache_file_name (device s) (sanitize_activity_name activity_name))
                 (CacheJson cache_data) (files s)\<rparr>)"

text \<open>
  \<open>_preload_activity_cache\<close>: the loop over the directory listing. A file is read when
  its name ends in \<open>.json\<close>, does not start with \<open>temp_\<close>, splits at its first underscore
  into two parts once every \<open>.json\<close> is removed, and the first part is the device.
\<close>

fun preload_files :: "string \<Rightarrow> (string \<times> file_content) list
    \<Rightarrow> (string \<rightharpoonup> screen_cache) \<Rightarrow> (string \<rightharpoonup> screen_cache)" where
  "preload_files dev [] acc = acc"
| "preload_files dev ((file, content) # fs) acc =
     preload_files dev fs
       (if py_endswith file ''.json'' \<and> \<not> py_startswith file ''temp_''
        then (case py_split1 ''_'' (py_remove_all ''.json'' file) of
                [device_id, activity_name] \<Rightarrow>
                  (if device_id = dev
                   then (case content of
                           CacheJson d \<Rightarrow> acc(activity_name \<mapsto> d)
                         | UiDump t \<Rightarrow> acc
                         | Garbage \<Rightarrow> acc)
                   else acc)
              | _ \<Rightarrow> acc)
        else acc)"

definition preload_activity_cache ::
  "string \<Rightarrow> bool \<Rightarrow> (string \<times> file_content) list \<Rightarrow> (string \<rightharpoonup> screen_cache)" where
  "preload_activity_cache dev caching dir =
     (if \<not> caching then Map.empty else preload_files dev dir Map.empty)"

text \<open>
  \<open>_get_ui_hierarchy\<close>: forgets the current activity, pulls the dump into
  \<open>temp_ui.xml\<close> and parses it.
\<close>

definition get_ui_hierarchy :: "device_env \<Rightarrow> controller \<Rightarrow> (py_error + element) \<times> controller" where
  "get_ui_hierarchy env s =
     (let s1 = s\<lparr>current_activity := None, snapshot_calls := snapshot_calls s + 1\<rparr>
      in case ui_dump env of
           AdbFailed \<Rightarrow> (Inl CalledProcessError, s1)
         | Malformed \<Rightarrow>
             (Inl ParseError, s1\<lparr>files := write_file ''temp_ui.xml'' Garbage (files s1)\<rparr>)
         | Tree root \<Rightarrow>
             (Inr root, s1\<lparr>files := write_file ''temp_ui.xml'' (UiDump root) (files s1)\<rparr>))"

text \<open>
  \<open>find_element\<close>, in the order of the source: resolve the screen and create its cache
  when caching is on (\<open>resolve_screen\<close>, lines 144 to 152), look the key up
  (\<open>cache_lookup\<close>, line 158), and on a miss search the live tree, compute the centre,
  store and save it (\<open>live_search\<close>, lines 163 to 198).
\<close>

definition resolve_screen :: "device_env \<Rightarrow> controller \<Rightarrow> string \<times> controller" where
  "resolve_screen env s =
     (if use_cache s
      then (let (activity, s1) = get_current_activity env s
            in if activity \<noteq> [] \<and> activity_cache s1 activity = None
               then (activity, s1\<lparr>activity_cache := (activity_cache s1)(activity \<mapsto> Map.empty)\<rparr>)
               else (activity, s1))
      else ([], s))"

definition cache_lookup :: "controller \<Rightarrow> string \<Rightarrow> string \<Rightarrow> coords option" where
  "cache_lookup s activity element_key =
     (if use_cache s \<and> activity \<noteq> []
      then (case activity_cache s activity of Some c \<Rightarrow> c element_key | None \<Rightarrow> None)
      else None)"

definition live_search ::
  "device_env \<Rightarrow> controller \<Rightarrow> string \<Rightarrow> query \<Rightarrow> (py_error + coords) \<times> controller" where
  "live_search env s activity q =
     (case get_ui_hierarchy env s of
        (Inl e, s1) \<Rightarrow> (Inl e, s1)
      | (Inr root, s1) \<Rightarrow>
          (case root_find (quoted env) root q of
             Inl e \<Rightarrow> (Inl e, s1)
           | Inr None \<Rightarrow> (Inl ValueError, s1)
           | Inr (Some element) \<Rightarrow>
               (case element_center
                       (case elem_get element ''bounds'' of Some b \<Rightarrow> b | None \<Rightarrow> ''[]'') of
                  Inl e \<Rightarrow> (Inl e, s1)
                | Inr center \<Rightarrow>
                    (if use_cache s1 \<and> activity \<noteq> []
                     then (case activity_cache s1 activity of
                             None \<Rightarrow> (Inl KeyError, s1)
                           | Some c \<Rightarrow>
                               (let c' = c(get_element_key q \<mapsto> center);
                                    s2 = s1\<lparr>activity_cache := (activity_cache s1)(activity \<mapsto> c')\<rparr>
                                in (Inr center, save_activity_cache s2 activity c')))
                     else (Inr center, s1)))))"

definition find_element ::
  "device_env \<Rightarrow> controller \<Rightarrow> query \<Rightarrow> (py_error + coords) \<times> controller" where
  "find_element env s q =
     (let (activity, s1) = resolve_screen env s
      in case cache_lookup s1 activity (get_element_key q) of
           Some center \<Rightarrow> (Inr center, s1)
         | None \<Rightarrow> live_search env s1 activity q)"

text \<open>\<open>check_element_exists\<close>: only \<open>ValueError\<close> is caught.\<close>

definition check_element_exists ::
  "device_env \<Rightarrow> controller \<Rightarrow> query \<Rightarrow> (py_error + bool) \<times> controller" where
  "check_element_exists env s q =
     (case find_element env s q of
        (Inr center, s1) \<Rightarrow> (Inr True, s1)
      | (Inl e, s1) \<Rightarrow> (if e = ValueError then (Inr False, s1) else (Inl e, s1)))"

text \<open>
  The element entry of a key on a screen, in the whole \<open>activity_cache\<close>: a screen
  without a cache has no entries.
\<close>

definition cache_entry :: "controller \<Rightarrow> string \<Rightarrow> string \<Rightarrow> coords option" where
  "cache_entry s activity element_key =
     (case activity_cache s activity of Some c \<Rightarrow> c element_key | None \<Rightarrow> None)"

section \<open>A concrete device and controller\<close>

text \<open>
  A screen \<open>com.app/.Main\<close> whose tree holds a button labelled \<open>Cancel\<close> with bounds
  \<open>[0,0][2,2]\<close> inside a layout with bounds \<open>[10,20][30,60]\<close>, and a controller for
  the device \<open>emu\<close> with an empty cache directory.
\<close>

definition example_tree :: element where
  "example_tree =
     Element ''hierarchy'' []
       [Element ''node'' [(''class'', ''android.widget.FrameLayout''), (''bounds'', ''[10,20][30,60]'')]
          [Element ''node'' [(''text'', ''Cancel''), (''bounds'', ''[0,0][2,2]'')] []]]"

definition example_env :: device_env where
  "example_env =
     \<lparr>focus_match = Some ''com.app/.Main t12'', ui_dump = Tree example_tree,
      quoted = (\<lambda>p r. Inl SyntaxError)\<rparr>"

definition example_controller :: "(string \<rightharpoonup> screen_cache) \<Rightarrow> controller" where
  "example_controller cache =
     \<lparr>device = ''emu'', use_cache = True, activity_cache = cache, current_activity = None,
      files = [], snapshot_calls = 0\<rparr>"

text \<open>The query for the text \<open>OK\<close>, the query for the text \<open>Cancel\<close>, and the query without predicates.\<close>

definition query_ok :: query where
  "query_ok = \<lparr>resource_id = None, elem_text = Some ''OK'', class_name = None\<rparr>"

definition query_cancel :: query where
  "query_cancel = \<lparr>resource_id = None, elem_text = Some ''Cancel'', class_name = None\<rparr>"

definition query_none :: query where
  "query_none = \<lparr>resource_id = None, elem_text = None, class_name = None\<rparr>"

text \<open>A cache that holds, for the screen above, one entry under the given key.\<close>

definition stale_cache :: "string \<Rightarrow> string \<rightharpoonup> screen_cache" where
  "stale_cache k = [''com.app_.Main'' \<mapsto> [k \<mapsto> (5, 5)]]"

text \<open>
  The controller after the query for \<open>Cancel\<close> has been resolved once on that screen,
  and a device that still shows the screen but fails every dump.
\<close>

definition resolved_controller :: controller where
  "resolved_controller =
     \<lparr>device = ''emu'', use_cache = True,
      activity_cache = [''com.app_.Main'' \<mapsto> [''text=Cancel'' \<mapsto> (1, 1)]],
      current_activity = None,
      files = [(''temp_ui.xml'', UiDump example_tree),
               (''emu_com.app_.Main.json'', CacheJson [''text=Cancel'' \<mapsto> (1, 1)])],
      snapshot_calls = 1\<rparr>"

definition offline_env :: device_env where
  "offline_env =
     \<lparr>focus_match = Some ''com.app/.Main'', ui_dump = AdbFailed,
      quoted = (\<lambda>p r. Inl SyntaxError)\<rparr>"

text \<open>A query with two predicates, both of which hold on the button of the example.\<close>

definition query_two :: query where
  "query_two =
     \<lparr>resource_id = None, elem_text = Some ''Cancel'', class_name = Some ''android.widget.Button''\<rparr>"

section \<open>The toast monitor\<close>

text \<open>
  \<open>_parse_toast_text\<close> finds \<open>Text: [\<close>, then the next \<open>];\<close>, and returns the stripped
  text between them unless it is empty. \<open>after_first sub s\<close> is what follows the first
  occurrence of \<open>sub\<close> in \<open>s\<close>, \<open>before_first sub s\<close> what precedes it.
\<close>

fun after_first :: "string \<Rightarrow> string \<Rightarrow> string option" where
  "after_first sub [] = (if sub = [] then Some [] else None)"
| "after_first sub (c # cs) =
     (if prefix sub (c # cs) then Some (drop (length sub) (c # cs)) else after_first sub cs)"

fun before_first :: "string \<Rightarrow> string \<Rightarrow> string option" where
  "before_first sub [] = (if sub = [] then Some [] else None)"
| "before_first sub (c # cs) =
     (if prefix sub (c # cs) then Some []
      else map_option (\<lambda>r. c # r) (before_first sub cs))"

definition parse_toast_text :: "string \<Rightarrow> string option" where
  "parse_toast_text line =
     (case after_first ''Text: ['' line of
        None \<Rightarrow> None
      | Some rest \<Rightarrow>
          (case before_first ''];'' rest of
             None \<Rightarrow> None
           | Some t \<Rightarrow> (let toast_text = py_strip t in if toast_text = [] then None else Some toast_text)))"

text \<open>
  A registered listener is a callable; a call with a message returns, or raises an
  exception of class \<open>Exception\<close> (here with its message).
\<close>

datatype call_outcome = Returns | Raises string

text \<open>The lines that the monitor prints.\<close>

datatype log_line =
    AlreadyRunning | MonitorStarted | WaitingForThread | MonitorStopped
  | ThreadStarted | ThreadStopped | StreamClosed | Detected string
  | ListenerError string | DecodeError | ThreadException string

text \<open>
  The fields of the controller that the monitor uses. \<open>thread_alive\<close> says whether
  \<open>toast_monitor_thread\<close> is a thread that has not finished; \<open>threads_started\<close> counts
  the listener threads spawned so far; \<open>calls\<close> records each call of a listener, by its
  position in \<open>toast_listeners\<close>, with the message passed; \<open>printed\<close> is what was printed.
\<close>

record monitor =
  is_monitoring_toast :: bool
  toast_queue :: "string list"
  toast_listeners :: "(string \<Rightarrow> call_outcome) list"
  thread_alive :: bool
  threads_started :: nat
  calls :: "(nat \<times> string) list"
  printed :: "log_line list"

datatype toast_monitor_state = Stopped | Running

definition monitor_state :: "monitor \<Rightarrow> toast_monitor_state" where
  "monitor_state m = (if is_monitoring_toast m then Running else Stopped)"

text \<open>\<open>start_toast_monitor\<close>.\<close>

definition start_toast_monitor :: "monitor \<Rightarrow> monitor" where
  "start_toast_monitor m =
     (if is_monitoring_toast m then m\<lparr>printed := printed m @ [AlreadyRunning]\<rparr>
      else m\<lparr>is_monitoring_toast := True, thread_alive := True,
             threads_started := threads_started m + 1,
             printed := printed m @ [MonitorStarted]\<rparr>)"

text \<open>
  \<open>stop_toast_monitor\<close>. The flag is cleared first. When the thread is alive, the two
  key events are sent; \<open>nudge_ok\<close> says whether both commands succeed, and when one fails
  its \<open>CalledProcessError\<close> leaves the function. The \<open>join\<close> that follows is taken to
  return: the listener, unblocked by the key events, sees the cleared flag and finishes.
\<close>

definition stop_toast_monitor :: "bool \<Rightarrow> monitor \<Rightarrow> py_error option \<times> monitor" where
  "stop_toast_monitor nudge_ok m =
     (let m1 = m\<lparr>is_monitoring_toast := False\<rparr>
      in if thread_alive m1
         then (let m2 = m1\<lparr>printed := printed m1 @ [WaitingForThread]\<rparr>
               in if nudge_ok
                  then (None, m2\<lparr>thread_alive := False,
                                 printed := printed m2 @ [ThreadStopped, MonitorStopped]\<rparr>)
                  else (Some CalledProcessError, m2))
         else (None, m1\<lparr>printed := printed m1 @ [MonitorStopped]\<rparr>))"

text \<open>The loop over the listeners, lines 401 to 405: an exception of a listener is printed.\<close>

fun notify_listeners ::
  "(string \<Rightarrow> call_outcome) list \<Rightarrow> nat \<Rightarrow> string \<Rightarrow> monitor \<Rightarrow> monitor" where
  "notify_listeners [] i toast_text m = m"
| "notify_listeners (listener # ls) i toast_text m =
     notify_listeners ls (i + 1) toast_text
       (case listener toast_text of
          Returns \<Rightarrow> m\<lparr>calls := calls m @ [(i, toast_text)]\<rparr>
        | Raises e \<Rightarrow>
            m\<lparr>calls := calls m @ [(i, toast_text)], printed := printed m @ [ListenerError e]\<rparr>)"

text \<open>
  One line read from the event stream, lines 379 to 405. An empty read restarts the
  \<open>uiautomator events\<close> process.
\<close>

definition handle_line :: "monitor \<Rightarrow> string \<Rightarrow> monitor" where
  "handle_line m line =
     (if line = [] then m\<lparr>printed := printed m @ [StreamClosed]\<rparr>
      else if py_in ''TYPE_NOTIFICATION_STATE_CHANGED'' line
              \<and> py_in ''ClassName: android.widget.Toast'' line
      then (case parse_toast_text line of
              Some toast_text \<Rightarrow>
                notify_listeners (toast_listeners m) 0 toast_text
                  (m\<lparr>printed := printed m @ [Detected toast_text],
                     toast_queue := toast_queue m @ [toast_text]\<rparr>)
            | None \<Rightarrow> m)
      else m)"

text \<open>
  What one iteration of the loop meets: a line is read, or the iteration raises
  \<open>UnicodeDecodeError\<close> or \<open>TimeoutExpired\<close>, which the inner handler catches, or it
  raises another exception, which only the outer handler catches.
\<close>

datatype stream_event = Line string | DecodeFailure | Timeout | Failure string

text \<open>
  The \<open>while\<close> loop of \<open>_monitor_toast\<close> and what follows it. The flag is read at the
  start of each iteration. When the events are used up the thread is blocked in
  \<open>readline\<close>. (The bounded wait for the terminated process is taken to succeed.)
\<close>

fun monitor_loop :: "monitor \<Rightarrow> stream_event list \<Rightarrow> monitor" where
  "monitor_loop m es =
     (if \<not> is_monitoring_toast m
      then m\<lparr>thread_alive := False, printed := printed m @ [ThreadStopped]\<rparr>
      else case es of
             [] \<Rightarrow> m
           | Line l # es' \<Rightarrow> monitor_loop (handle_line m l) es'
           | DecodeFailure # es' \<Rightarrow> monitor_loop (m\<lparr>printed := printed m @ [DecodeError]\<rparr>) es'
           | Timeout # es' \<Rightarrow> monitor_loop m es'
           | Failure x # es' \<Rightarrow>
               m\<lparr>is_monitoring_toast := False, thread_alive := False,
                  printed := printed m @ [ThreadException x]\<rparr>)"

text \<open>\<open>_monitor_toast\<close>: the process is opened, which may fail, and the loop is entered.\<close>

definition monitor_toast :: "string option \<Rightarrow> monitor \<Rightarrow> stream_event list \<Rightarrow> monitor" where
  "monitor_toast popen_error m es =
     (case popen_error of
        Some x \<Rightarrow>
          m\<lparr>is_monitoring_toast := False, thread_alive := False,
             printed := printed m @ [ThreadException x]\<rparr>
      | None \<Rightarrow> monitor_loop (m\<lparr>printed := printed m @ [ThreadStarted]\<rparr>) es)"

section \<open>Waiting for a toast\<close>

text \<open>
  Time is counted in clock ticks since \<open>wait_for_toast\<close> was entered. The listener
  thread puts messages on the queue while the caller waits: \<open>arrivals\<close> lists the
  messages still to be taken, each with the tick at which it is put (a message that is
  already queued has tick 0), in the order of the queue.

  \<open>get_toast\<close>: \<open>Queue.get\<close> refuses a negative timeout; otherwise the call returns the
  next message as soon as it is there, or \<open>None\<close> when the timeout has passed.
  It yields the result, the tick at which it returns, and the arrivals left.
\<close>

definition get_toast ::
  "int \<Rightarrow> nat \<Rightarrow> (nat \<times> string) list \<Rightarrow> (py_error + string option) \<times> nat \<times> (nat \<times> string) list" where
  "get_toast timeout now arrivals =
     (if timeout < 0 then (Inl ValueError, now, arrivals)
      else case arrivals of
             [] \<Rightarrow> (Inr None, now + nat timeout, [])
           | (t, msg) # rest \<Rightarrow>
               if int t \<le> int now + timeout then (Inr (Some msg), max now t, rest)
               else (Inr None, now + nat timeout, arrivals))"

text \<open>
  The loop of \<open>wait_for_toast\<close>. \<open>trace\<close> records, for each call of \<open>get_toast\<close>, the
  timeout it was given and what it returned.
\<close>

definition contains_expected :: "string \<Rightarrow> string option \<Rightarrow> bool" where
  "contains_expected expected_text toast =
     (case toast of None \<Rightarrow> False | Some msg \<Rightarrow> msg \<noteq> [] \<and> py_in expected_text msg)"

function wait_loop ::
  "string \<Rightarrow> int \<Rightarrow> nat \<Rightarrow> (nat \<times> string) list \<Rightarrow> (int \<times> string option) list
     \<Rightarrow> (py_error + bool) \<times> nat \<times> (int \<times> string option) list" where
  "wait_loop expected_text timeout now arrivals trace =
     (if int now < timeout
      then (case get_toast timeout now arrivals of
              (Inl e, now', arrivals') \<Rightarrow> (Inl e, now', trace)
            | (Inr toast, now', arrivals') \<Rightarrow>
                if contains_expected expected_text toast
                then (Inr True, now', trace @ [(timeout, toast)])
                else wait_loop expected_text timeout now' arrivals' (trace @ [(timeout, toast)]))
      else (Inr False, now, trace))"
  by pat_completeness auto
termination
  by (relation "measure (\<lambda>(e, timeout, now, arrivals, trace).
                   2 * length arrivals + (if int now < timeout then 1 else 0))")
     (auto simp: get_toast_def split: if_splits list.splits prod.splits)

definition wait_for_toast ::
  "string \<Rightarrow> int \<Rightarrow> (nat \<times> string) list
     \<Rightarrow> (py_error + bool) \<times> nat \<times> (int \<times> string option) list" where
  "wait_for_toast expected_text timeout arrivals = wait_loop expected_text timeout 0 arrivals []"

text \<open>
  The terms in which the behaviour of \<open>wait_for_toast\<close> is stated, read from the
  specification and independent of the loop above.

  A message counts when it contains the expected text as a contiguous piece; an empty
  message, which the monitor never puts on the queue, does not count.
\<close>

definition expected_in :: "string \<Rightarrow> string \<Rightarrow> bool" where
  "expected_in expected_text msg = (msg \<noteq> [] \<and> sublist expected_text msg)"

text \<open>
  \<open>in_time timeout now ts\<close>: messages put at the ticks \<open>ts\<close> are all popped by
  successive pops, the first of which starts at tick \<open>now\<close>, when every pop starts
  before the elapsed time has reached the timeout and is granted the full timeout from
  its own start: the message must be there no later than \<open>timeout\<close> ticks after the pop
  starts, not \<open>timeout\<close> ticks after the call of \<open>wait_for_toast\<close>. A pop returns at
  the tick of its message, or at once when the message was already queued.
\<close>

fun in_time :: "int \<Rightarrow> nat \<Rightarrow> nat list \<Rightarrow> bool" where
  "in_time timeout now [] = True"
| "in_time timeout now (t # ts) =
     (int now < timeout \<and> int t \<le> int now + timeout \<and> in_time timeout (max now t) ts)"

text \<open>The tick at which the last of these pops returns.\<close>

definition clock_after :: "nat \<Rightarrow> nat list \<Rightarrow> nat" where
  "clock_after now ts = foldl max now ts"

section \<open>A concrete monitor\<close>

text \<open>
  A running monitor with two listeners, the first of which raises on every call, and a
  line of the event stream that reports a toast.
\<close>

definition failing_listener :: "string \<Rightarrow> call_outcome" where
  "failing_listener msg = Raises ''boom''"

definition good_listener :: "string \<Rightarrow> call_outcome" where
  "good_listener msg = Returns"

definition example_monitor :: monitor where
  "example_monitor =
     \<lparr>is_monitoring_toast = True, toast_queue = [],
      toast_listeners = [failing_listener, good_listener],
      thread_alive = True, threads_started = 1, calls = [], printed = []\<rparr>"


section \<open>Facts about the screen identity\<close>

lemma takeWhile_dropWhile_same: "takeWhile P (dropWhile P xs) = []"
  by (induction xs) auto

lemma dropWhile_head: "dropWhile P xs = a # r \<Longrightarrow> \<not> P a"
  by (induction xs) (auto split: if_splits)

lemma not_space_simps [simp]:
  "\<not> py_isspace CHR ''/''" "\<not> py_isspace CHR ''t''" "\<not> py_isspace CHR ''_''"
  by (simp_all add: py_isspace_def)

lemma not_digit_simps [simp]:
  "\<not> py_isdigit CHR ''/''" "\<not> py_isdigit CHR ''t''" "\<not> py_isdigit CHR ''_''"
  by (simp_all add: py_isdigit_def)

lemma match_task_id_space: "py_isspace c \<Longrightarrow> match_task_id (c # u) = match_task_id u"
  by (simp add: match_task_id_def)

lemma match_task_id_t: "match_task_id (CHR ''t'' # u) = match_digits u"
  by (simp add: match_task_id_def match_t_def)

lemma match_task_id_slash:
  "match_task_id (CHR ''/'' # u) = match_t (dropWhile py_isspace u)"
  by (simp add: match_task_id_def)

lemma match_task_id_other:
  "\<not> py_isspace c \<Longrightarrow> c \<noteq> CHR ''/'' \<Longrightarrow> c \<noteq> CHR ''t'' \<Longrightarrow> match_task_id (c # u) = None"
  by (simp add: match_task_id_def match_t_def)

lemma match_after_slash_sub:
  "match_task_id u = None \<Longrightarrow> match_t (dropWhile py_isspace u) = None"
proof (cases "dropWhile py_isspace u")
  case Nil
  then show ?thesis by (simp only: match_t_def list.case)
next
  case (Cons a r)
  assume "match_task_id u = None"
  with Cons dropWhile_head [OF Cons] show ?thesis
    by (cases "a = CHR ''/''") (simp_all add: match_task_id_def match_t_def)
qed

lemma match_digits_rest: "match_digits s = Some r \<Longrightarrow> match_digits r = None"
proof -
  assume "match_digits s = Some r"
  then have r: "r = dropWhile py_isdigit s" by (simp add: match_digits_def split: if_splits)
  with r takeWhile_dropWhile_same [of py_isdigit s] show ?thesis by (simp add: match_digits_def)
qed

lemma match_task_id_rest_digits: "match_task_id s = Some r \<Longrightarrow> match_digits r = None"
proof -
  assume a: "match_task_id s = Some r"
  then obtain u where "match_t u = Some r" by (simp add: match_task_id_def Let_def)
  then obtain v where "match_digits v = Some r"
    by (cases u) (simp_all add: match_t_def split: if_splits)
  then show ?thesis by (rule match_digits_rest)
qed

lemma strip_keeps_no_digit: "match_digits s = None \<Longrightarrow> match_digits (strip_task_ids s) = None"
proof (induction s rule: strip_task_ids.induct)
  case 1
  then show ?case by simp
next
  case (2 c cs)
  show ?case
  proof (cases "match_task_id (c # cs)")
    case None
    with "2.prems" show ?thesis by (simp add: match_digits_def split: if_splits)
  next
    case (Some rest)
    with "2.IH"(2) [OF Some] match_task_id_rest_digits [OF Some] show ?thesis by simp
  qed
qed

lemma strip_no_match: "match_task_id (strip_task_ids s) = None"
proof (induction s rule: strip_task_ids.induct)
  case 1
  then show ?case by (simp add: match_task_id_def match_t_def)
next
  case (2 c cs)
  show ?case
  proof (cases "match_task_id (c # cs)")
    case (Some rest)
    with "2.IH"(2) show ?thesis by simp
  next
    case None
    then have ih: "match_task_id (strip_task_ids cs) = None" using "2.IH"(1) by simp
    have "match_task_id (c # strip_task_ids cs) = None"
    proof -
      consider "py_isspace c" | "c = CHR ''/''" | "c = CHR ''t''"
        | "\<not> py_isspace c" "c \<noteq> CHR ''/''" "c \<noteq> CHR ''t''" by blast
      then show ?thesis
      proof cases
        case 1 then show ?thesis using ih by (simp add: match_task_id_space)
      next
        case 2 then show ?thesis using ih by (simp add: match_task_id_slash match_after_slash_sub)
      next
        case 3
        with None have "match_digits cs = None" by (simp add: match_task_id_t)
        with 3 show ?thesis by (simp add: match_task_id_t strip_keeps_no_digit)
      next
        case 4 then show ?thesis by (simp add: match_task_id_other)
      qed
    qed
    with None show ?thesis by simp
  qed
qed


lemma suffix_strip_is_strip: "suffix t (strip_task_ids s) \<Longrightarrow> \<exists>s'. t = strip_task_ids s'"
proof (induction s rule: strip_task_ids.induct)
  case 1
  then show ?case by (metis strip_task_ids.simps(1) suffix_bot.extremum_uniqueI)
next
  case (2 c cs)
  show ?case
  proof (cases "match_task_id (c # cs)")
    case None
    with "2.prems" have "suffix t (c # strip_task_ids cs)" by simp
    then consider "t = c # strip_task_ids cs" | "suffix t (strip_task_ids cs)"
      by (auto simp: suffix_Cons)
    then show ?thesis
    proof cases
      case 1 with None have "t = strip_task_ids (c # cs)" by simp
      then show ?thesis by blast
    next
      case 2 with "2.IH"(1) [OF None] show ?thesis by blast
    qed
  next
    case (Some rest)
    with "2.prems" "2.IH"(2) [OF Some] show ?thesis by simp
  qed
qed

lemma strip_fixed: "(\<And>t. suffix t s \<Longrightarrow> match_task_id t = None) \<Longrightarrow> strip_task_ids s = s"
proof (induction s)
  case Nil
  then show ?case by simp
next
  case (Cons c cs)
  have "match_task_id (c # cs) = None" using Cons.prems [of "c # cs"] by simp
  moreover have "strip_task_ids cs = cs"
    using Cons.IH Cons.prems by (simp add: suffix_Cons)
  ultimately show ?case by simp
qed

lemma strip_task_ids_idem: "strip_task_ids (strip_task_ids s) = strip_task_ids s"
  using suffix_strip_is_strip strip_no_match by (intro strip_fixed) metis

lemma replace_illegal_space [simp]: "py_isspace (replace_illegal c) = py_isspace c"
  by (auto simp: replace_illegal_def illegal_chars_def py_isspace_def)

lemma replace_illegal_digit [simp]: "py_isdigit (replace_illegal c) = py_isdigit c"
  by (auto simp: replace_illegal_def illegal_chars_def py_isdigit_def)

lemma replace_illegal_t [simp]: "replace_illegal c = CHR ''t'' \<longleftrightarrow> c = CHR ''t''"
  by (auto simp: replace_illegal_def illegal_chars_def)

lemma replace_illegal_slash [simp]: "replace_illegal c \<noteq> CHR ''/''"
  by (auto simp: replace_illegal_def illegal_chars_def)

lemma dropWhile_map_replace:
  "dropWhile py_isspace (map replace_illegal u) = map replace_illegal (dropWhile py_isspace u)"
  by (induction u) auto

lemma takeWhile_map_replace:
  "takeWhile py_isdigit (map replace_illegal u) = map replace_illegal (takeWhile py_isdigit u)"
  by (induction u) auto

lemma match_t_map_replace:
  "match_t u = None \<Longrightarrow> match_t (map replace_illegal u) = None"
  by (cases u) (auto simp: match_t_def match_digits_def takeWhile_map_replace split: if_splits)

lemma match_task_id_unfold:
  "match_task_id u =
     (case dropWhile py_isspace u of [] \<Rightarrow> None
      | a # r \<Rightarrow> if a = CHR ''/'' then match_t (dropWhile py_isspace r) else match_t (a # r))"
proof (cases "dropWhile py_isspace u")
  case Nil
  show ?thesis unfolding match_task_id_def Let_def Nil by (simp add: match_t_def)
next
  case (Cons a r)
  note ns = dropWhile_head [OF Cons]
  show ?thesis unfolding match_task_id_def Let_def Cons using ns by simp
qed

lemma match_map_replace:
  assumes "match_task_id u = None"
  shows "match_task_id (map replace_illegal u) = None"
proof (cases "dropWhile py_isspace u")
  case Nil
  show ?thesis unfolding match_task_id_unfold [of "map replace_illegal u"] dropWhile_map_replace Nil
    by simp
next
  case (Cons a r)
  have "match_t (a # r) = None"
  proof (cases "a = CHR ''/''")
    case True then show ?thesis by (simp add: match_t_def)
  next
    case False
    with assms show ?thesis unfolding match_task_id_unfold [of u] Cons by simp
  qed
  then have "match_t (map replace_illegal (a # r)) = None" by (rule match_t_map_replace)
  then show ?thesis
    unfolding match_task_id_unfold [of "map replace_illegal u"] dropWhile_map_replace Cons
    by simp
qed

lemma suffix_map: "suffix t (map f xs) \<Longrightarrow> \<exists>t'. suffix t' xs \<and> t = map f t'"
  by (metis suffix_def map_eq_append_conv)

lemma replace_illegal_idem: "replace_illegal (replace_illegal c) = replace_illegal c"
  by (simp add: replace_illegal_def illegal_chars_def)

lemma sanitize_twice:
  "sanitize_activity_name (sanitize_activity_name s) = sanitize_activity_name s"
proof -
  have "strip_task_ids (map replace_illegal (strip_task_ids s)) = map replace_illegal (strip_task_ids s)"
  proof (rule strip_fixed)
    fix t assume "suffix t (map replace_illegal (strip_task_ids s))"
    then obtain t' where t': "suffix t' (strip_task_ids s)" "t = map replace_illegal t'"
      using suffix_map by blast
    from t'(1) obtain s' where "t' = strip_task_ids s'" using suffix_strip_is_strip by blast
    then have "match_task_id t' = None" by (simp add: strip_no_match)
    with t'(2) show "match_task_id t = None" by (simp add: match_map_replace)
  qed
  then show ?thesis by (simp add: sanitize_activity_name_def replace_illegal_idem)
qed

section \<open>Facts about integers, splitting and bounds\<close>

declare digits_of.simps [simp del]

lemma below_ten:
  "d < (10::nat) \<Longrightarrow>
   d = 0 \<or> d = 1 \<or> d = 2 \<or> d = 3 \<or> d = 4 \<or> d = 5 \<or> d = 6 \<or> d = 7 \<or> d = 8 \<or> d = 9"
  by arith

lemma digit_char_isdigit: "d < 10 \<Longrightarrow> py_isdigit (digit_char d)"
  using below_ten [of d] by (auto simp: py_isdigit_def digit_char_def)

lemma digit_val_digit_char: "d < 10 \<Longrightarrow> digit_val (digit_char d) = int d"
  using below_ten [of d] by (auto simp: digit_val_def digit_char_def)

lemma digits_of_all_digits: "list_all py_isdigit (digits_of n)"
proof (induction n rule: digits_of.induct)
  case (1 n)
  show ?case
  proof (cases "n < 10")
    case True
    then show ?thesis by (subst digits_of.simps) (simp add: digit_char_isdigit)
  next
    case False
    with 1 show ?thesis by (subst digits_of.simps) (simp add: digit_char_isdigit)
  qed
qed

lemma digits_of_nonempty: "digits_of n \<noteq> []"
  by (subst digits_of.simps) simp

lemma decimal_snoc: "decimal (ds @ [c]) = 10 * decimal ds + digit_val c"
  by (simp add: decimal_def)

lemma decimal_digits_of: "decimal (digits_of n) = int n"
proof (induction n rule: digits_of.induct)
  case (1 n)
  show ?case
  proof (cases "n < 10")
    case True
    then show ?thesis
      by (subst digits_of.simps) (simp add: decimal_def digit_val_digit_char)
  next
    case False
    with 1 have "decimal (digits_of (n div 10)) = int (n div 10)" by simp
    with False show ?thesis
      by (subst digits_of.simps) (simp add: decimal_snoc digit_val_digit_char zdiv_int zmod_int)
  qed
qed


lemma digit_not_special:
  assumes "py_isdigit c"
  shows "c \<noteq> CHR ''_''" "c \<noteq> CHR '',''" "c \<noteq> CHR ''[''" "c \<noteq> CHR '']''"
        "c \<noteq> CHR ''-''" "c \<noteq> CHR ''+''" "\<not> int_space c"
  using assms by (auto simp: py_isdigit_def int_space_def)

lemma dropWhile_none: "\<forall>c \<in> set s. \<not> P c \<Longrightarrow> dropWhile P s = s"
  by (cases s) auto

lemma int_strip_id:
  "\<forall>c \<in> set s. \<not> int_space c \<Longrightarrow> rev (dropWhile int_space (rev (dropWhile int_space s))) = s"
  by (simp add: dropWhile_none)

lemma split_from_absent:
  "c0 \<notin> set s \<Longrightarrow> split_from (c0 # sep') cur s = [cur @ s]"
  by (induction s arbitrary: cur) auto

lemma split_from_first:
  "c0 \<notin> set A \<Longrightarrow>
   split_from (c0 # sep') cur (A @ c0 # sep' @ B) = (cur @ A) # split_from (c0 # sep') [] B"
  by (induction A arbitrary: cur) auto

lemma py_split_two:
  "c0 \<notin> set A \<Longrightarrow> c0 \<notin> set B \<Longrightarrow> py_split (c0 # sep') (A @ c0 # sep' @ B) = [A, B]"
  by (simp add: py_split_def split_from_first split_from_absent)

lemma py_split_absent: "c0 \<notin> set s \<Longrightarrow> py_split (c0 # sep') s = [s]"
  by (simp add: py_split_def split_from_absent)

lemma show_int_chars: "c \<in> set (show_int i) \<Longrightarrow> py_isdigit c \<or> c = CHR ''-''"
  using digits_of_all_digits [of "nat i"] digits_of_all_digits [of "nat (- i)"]
  by (auto simp: show_int_def list_all_iff split: if_splits)

lemma show_int_nonempty: "show_int i \<noteq> []"
  by (simp add: show_int_def digits_of_nonempty)

lemma show_int_no_special:
  "CHR ''_'' \<notin> set (show_int i)" "CHR '','' \<notin> set (show_int i)"
  "CHR ''['' \<notin> set (show_int i)" "CHR '']'' \<notin> set (show_int i)"
  using show_int_chars [of "CHR ''_''" i] show_int_chars [of "CHR '',''" i]
        show_int_chars [of "CHR ''[''" i] show_int_chars [of "CHR '']''" i]
  by (auto simp: py_isdigit_def)

lemma show_int_no_space: "\<forall>c \<in> set (show_int i). \<not> int_space c"
proof
  fix c assume "c \<in> set (show_int i)"
  then have "py_isdigit c \<or> c = CHR ''-''" by (rule show_int_chars)
  then show "\<not> int_space c" by (auto simp: py_isdigit_def int_space_def)
qed

lemma py_int_digits:
  assumes "list_all py_isdigit ds" and "ds \<noteq> []"
  shows "py_split ''_'' ds = [ds]"
  using assms digit_not_special(1) by (intro py_split_absent) (auto simp: list_all_iff)

lemma py_int_show_int: "py_int (show_int i) = Inr i"
proof (cases "i < 0")
  case True
  define ds where "ds = digits_of (nat (- i))"
  have ds: "list_all py_isdigit ds" "ds \<noteq> []" "decimal ds = - i"
    using True by (simp_all add: ds_def digits_of_all_digits digits_of_nonempty decimal_digits_of)
  have s: "show_int i = CHR ''-'' # ds" using True by (simp add: show_int_def ds_def)
  have "rev (dropWhile int_space (rev (dropWhile int_space (show_int i)))) = CHR ''-'' # ds"
    using int_strip_id [OF show_int_no_space, of i] s by simp
  then show ?thesis
    using ds py_int_digits [OF ds(1,2)] by (simp add: py_int_def)
next
  case False
  define ds where "ds = digits_of (nat i)"
  have ds: "list_all py_isdigit ds" "ds \<noteq> []" "decimal ds = i"
    using False by (simp_all add: ds_def digits_of_all_digits digits_of_nonempty decimal_digits_of)
  have s: "show_int i = ds" using False by (simp add: show_int_def ds_def)
  obtain c r where cr: "ds = c # r" using ds(2) by (cases ds) auto
  with ds(1) have c: "c \<noteq> CHR ''-''" "c \<noteq> CHR ''+''"
    using digit_not_special by auto
  have "rev (dropWhile int_space (rev (dropWhile int_space (show_int i)))) = ds"
    using int_strip_id [OF show_int_no_space, of i] s by simp
  then show ?thesis
    using ds py_int_digits [OF ds(1,2)] c cr by (simp add: py_int_def)
qed

lemma parse_pair_show: "parse_pair (show_int x @ '','' @ show_int y) = Inr (x, y)"
proof -
  have "py_split '','' (show_int x @ '','' @ show_int y) = [show_int x, show_int y]"
    using py_split_two [of "CHR '',''" "show_int x" "show_int y" "[]"] show_int_no_special(2)
    by simp
  then show ?thesis by (simp add: parse_pair_def py_int_show_int)
qed

lemma py_strip_chars_brackets:
  assumes "M \<noteq> []" and "hd M \<notin> set ''[]''" and "last M \<notin> set ''[]''"
  shows "py_strip_chars ''[]'' (''['' @ M @ '']'') = M"
proof -
  obtain a r where M: "M = a # r" using assms(1) by (cases M) auto
  with assms(2) have 1: "dropWhile (\<lambda>c. c \<in> set ''[]'') (''['' @ M @ '']'') = M @ '']''"
    by simp
  obtain b q where R: "rev M = b # q" using assms(1) by (cases "rev M") auto
  have "last M = hd (rev M)" using assms(1) by (simp add: hd_rev)
  with R assms(3) have b: "b \<notin> set ''[]''" by simp
  have "rev (M @ '']'') = CHR '']'' # b # q" using R by simp
  then have "dropWhile (\<lambda>c. c \<in> set ''[]'') (rev (M @ '']'')) = b # q"
    using b by simp
  then have 2: "dropWhile (\<lambda>c. c \<in> set ''[]'') (rev (M @ '']'')) = rev M"
    using R by simp
  show ?thesis unfolding py_strip_chars_def 1 2 by simp
qed

lemma element_center_bounds_str:
  "element_center (bounds_str x1 y1 x2 y2) = Inr ((x1 + x2) div 2, (y1 + y2) div 2)"
proof -
  define P1 where "P1 = show_int x1 @ '','' @ show_int y1"
  define P2 where "P2 = show_int x2 @ '','' @ show_int y2"
  define M where "M = P1 @ '']['' @ P2"
  have b: "bounds_str x1 y1 x2 y2 = ''['' @ M @ '']''"
    by (simp add: bounds_str_def M_def P1_def P2_def)
  have P: "CHR '']'' \<notin> set P1" "CHR '']'' \<notin> set P2"
    using show_int_no_special(4) by (simp_all add: P1_def P2_def)
  have hdM: "hd M \<in> set (show_int x1)"
    using show_int_nonempty [of x1] by (cases "show_int x1") (simp_all add: M_def P1_def)
  have lastM: "last M \<in> set (show_int y2)"
    using show_int_nonempty [of y2] by (simp add: M_def P2_def)
  have "M \<noteq> []" by (simp add: M_def)
  moreover have "hd M \<notin> set ''[]''" using hdM show_int_no_special(3,4) [of x1] by auto
  moreover have "last M \<notin> set ''[]''" using lastM show_int_no_special(3,4) [of y2] by auto
  ultimately have "py_strip_chars ''[]'' (bounds_str x1 y1 x2 y2) = M"
    unfolding b by (rule py_strip_chars_brackets)
  moreover have "py_split ''][''  M = [P1, P2]"
    using py_split_two [of "CHR '']''" P1 P2 "''[''"] P by (simp add: M_def)
  moreover have "parse_pair P1 = Inr (x1, y1)" "parse_pair P2 = Inr (x2, y2)"
    unfolding P1_def P2_def by (rule parse_pair_show)+
  ultimately show ?thesis by (simp add: element_center_def)
qed

section \<open>Key canonicalisation\<close>

lemma get_element_key_canonical:
  "get_element_key q = canonical_key (resource_id q) (elem_text q) (class_name q)"
  by (cases "resource_id q"; cases "elem_text q"; cases "class_name q")
     (simp_all add: get_element_key_def canonical_key_def present_part_def truthy_def)

text \<open>
  C4. Whatever combination of the three predicates is present, the key of a query is the
  concatenation of the present ones in the fixed order id, text, class; so two calls that
  supply the same keyword arguments in different orders get the same key.
\<close>

theorem key_canonicalization:
  assumes "distinct (map fst kws)" and "distinct (map fst kws')" and "set kws' = set kws"
  shows "get_element_key (bind_query kws') = get_element_key (bind_query kws)
       \<and> get_element_key (bind_query kws) =
           canonical_key (map_of kws Resource_id) (map_of kws Text) (map_of kws Class_name)"
proof -
  have "map_of kws' = map_of kws"
    using assms by (simp add: map_of_inject_set)
  then have "bind_query kws' = bind_query kws"
    by (simp add: bind_query_def)
  then show ?thesis
    by (simp add: get_element_key_canonical bind_query_def)
qed

theorem key_canonicalization_witness:
  "get_element_key (bind_query [(Class_name, ''android.widget.Button''), (Resource_id, ''app:id/ok''), (Text, ''OK'')])
     = get_element_key (bind_query [(Resource_id, ''app:id/ok''), (Text, ''OK''), (Class_name, ''android.widget.Button'')])
   \<and> get_element_key (bind_query [(Resource_id, ''app:id/ok''), (Text, ''OK''), (Class_name, ''android.widget.Button'')])
     = ''id=app:id/ok_text=OK_class=android.widget.Button''"
  using key_canonicalization
    [of "[(Resource_id, ''app:id/ok''), (Text, ''OK''), (Class_name, ''android.widget.Button'')]"
        "[(Class_name, ''android.widget.Button''), (Resource_id, ''app:id/ok''), (Text, ''OK'')]"]
  by (simp add: canonical_key_def present_part_def insert_commute)

section \<open>Facts about the locator\<close>

lemma resolve_screen_facts:
  assumes "resolve_screen env s = (a, s1)"
  shows "use_cache s1 = use_cache s" and "device s1 = device s" and "files s1 = files s"
    and "snapshot_calls s1 = snapshot_calls s"
    and "use_cache s \<Longrightarrow> a \<noteq> [] \<Longrightarrow> activity_cache s1 a \<noteq> None"
    and "cache_entry s1 x k = cache_entry s x k"
  using assms
  by (auto simp: resolve_screen_def get_current_activity_def cache_entry_def Let_def
           split: if_splits option.splits prod.splits)

lemma get_ui_hierarchy_tree:
  "ui_dump env = Tree root \<Longrightarrow>
   get_ui_hierarchy env s =
     (Inr root, s\<lparr>current_activity := None, snapshot_calls := snapshot_calls s + 1,
                  files := write_file ''temp_ui.xml'' (UiDump root) (files s)\<rparr>)"
  by (simp add: get_ui_hierarchy_def)

lemma map_of_write_file: "map_of (write_file n c fs) = (map_of fs)(n \<mapsto> c)"
  by (induction fs) (auto simp: fun_eq_iff)

lemma sanitize_example: "sanitize_activity_name (py_strip ''com.app/.Main t12'') = ''com.app_.Main''"
  by (simp add: sanitize_activity_name_def py_strip_def match_task_id_def match_t_def
        match_digits_def py_isspace_def py_isdigit_def replace_illegal_def illegal_chars_def)

lemma resolve_example:
  "resolve_screen example_env (example_controller (stale_cache k)) =
     (''com.app_.Main'', (example_controller (stale_cache k))\<lparr>current_activity := Some ''com.app_.Main''\<rparr>)"
  by (simp add: resolve_screen_def get_current_activity_def example_env_def example_controller_def
        sanitize_example stale_cache_def Let_def)

lemma descendants_example:
  "descendants example_tree =
     [Element ''node'' [(''class'', ''android.widget.FrameLayout''), (''bounds'', ''[10,20][30,60]'')]
          [Element ''node'' [(''text'', ''Cancel''), (''bounds'', ''[0,0][2,2]'')] []],
      Element ''node'' [(''text'', ''Cancel''), (''bounds'', ''[0,0][2,2]'')] []]"
  by (simp add: example_tree_def)

lemma find_None_iff_all: "list_all (\<lambda>e. \<not> P e) xs \<Longrightarrow> find P xs = None"
  by (induction xs) auto

lemma root_find_no_match:
  assumes "length (conditions q) \<le> 1" and "\<not> has_quote (conditions q)"
      and "list_all (\<lambda>e. \<not> matches q e) (descendants root)"
  shows "root_find lib root q = Inr None"
proof (cases "conditions q")
  case Nil
  with assms(3) have "list_all (\<lambda>e. \<not> tag e = ''node'') (descendants root)"
    by (simp add: matches_def)
  then have "find (\<lambda>e. tag e = ''node'') (descendants root) = None"
    by (rule find_None_iff_all)
  with Nil assms(2) show ?thesis by (simp add: root_find_def)
next
  case (Cons kv kvs)
  with assms(1) have c: "conditions q = [kv]" by simp
  with assms(3)
  have "list_all (\<lambda>e. \<not> (tag e = ''node'' \<and> elem_get e (fst kv) = Some (snd kv))) (descendants root)"
    by (simp add: matches_def)
  then have "find (\<lambda>e. tag e = ''node'' \<and> elem_get e (fst kv) = Some (snd kv)) (descendants root) = None"
    by (rule find_None_iff_all)
  with c assms(2) show ?thesis by (simp add: root_find_def)
qed

lemma live_search_success:
  assumes "live_search env s a q = (Inr xy, s1)" and "use_cache s" and "a \<noteq> []"
  shows "use_cache s1 \<and> (\<exists>c. activity_cache s1 a = Some c \<and> c (get_element_key q) = Some xy)"
  using assms
  by (auto simp: live_search_def get_ui_hierarchy_def save_activity_cache_def Let_def
           split: snapshot.splits sum.splits option.splits prod.splits if_splits)

lemma find_element_hit:
  assumes "use_cache s" and "focus_match env = Some g"
      and "sanitize_activity_name (py_strip g) = a" and "a \<noteq> []"
      and "activity_cache s a = Some c" and "c (get_element_key q) = Some xy"
  shows "find_element env s q = (Inr xy, s\<lparr>current_activity := Some a\<rparr>)"
  using assms
  by (simp add: find_element_def resolve_screen_def get_current_activity_def cache_lookup_def Let_def)

lemma bounds_examples:
  "bounds_str 10 20 30 60 = ''[10,20][30,60]''" "bounds_str 0 0 1 1 = ''[0,0][1,1]''"
  "bounds_str 0 0 2 2 = ''[0,0][2,2]''"
  by (simp_all add: bounds_str_def show_int_def digits_of.simps digit_char_def)

lemma center_examples:
  "element_center ''[10,20][30,60]'' = Inr (20, 40)" "element_center ''[0,0][1,1]'' = Inr (0, 0)"
  "element_center ''[0,0][2,2]'' = Inr (1, 1)"
  using element_center_bounds_str [of 10 20 30 60] element_center_bounds_str [of 0 0 1 1]
    element_center_bounds_str [of 0 0 2 2]
  by (simp_all add: bounds_examples)

lemma sanitize_example2: "sanitize_activity_name (py_strip ''com.app/.Main'') = ''com.app_.Main''"
  by (simp add: sanitize_activity_name_def py_strip_def match_task_id_def match_t_def
        match_digits_def py_isspace_def py_isdigit_def replace_illegal_def illegal_chars_def)

lemma sanitize_example_fixed: "sanitize_activity_name ''com.app_.Main'' = ''com.app_.Main''"
  using sanitize_twice [of "py_strip ''com.app/.Main''"] by (simp only: sanitize_example2)

lemma key_cancel: "get_element_key query_cancel = ''text=Cancel''"
  by (simp add: get_element_key_def query_cancel_def truthy_def)

lemma resolve_example_empty:
  "resolve_screen example_env (example_controller Map.empty) =
     (''com.app_.Main'',
      (example_controller [''com.app_.Main'' \<mapsto> Map.empty])\<lparr>current_activity := Some ''com.app_.Main''\<rparr>)"
  by (simp add: resolve_screen_def get_current_activity_def example_env_def example_controller_def
        sanitize_example Let_def)

lemma root_find_cancel:
  "root_find (quoted example_env) example_tree query_cancel =
     Inr (Some (Element ''node'' [(''text'', ''Cancel''), (''bounds'', ''[0,0][2,2]'')] []))"
  by (simp add: root_find_def conditions_def has_quote_def query_cancel_def truthy_def
        descendants_example elem_get_def)

lemma first_resolution:
  "find_element example_env (example_controller Map.empty) query_cancel = (Inr (1, 1), resolved_controller)"
  unfolding find_element_def resolve_example_empty key_cancel
  by (simp add: cache_lookup_def example_controller_def live_search_def get_ui_hierarchy_def
        example_env_def root_find_cancel [unfolded example_env_def, simplified] elem_get_def
        center_examples key_cancel save_activity_cache_def cache_file_name_def
        sanitize_example_fixed resolved_controller_def Let_def)

lemma ok_no_match: "list_all (\<lambda>e. \<not> matches query_ok e) (descendants example_tree)"
  by (simp add: descendants_example matches_def conditions_def query_ok_def truthy_def elem_get_def)

lemma miss_on_empty:
  "cache_lookup (snd (resolve_screen example_env (example_controller Map.empty)))
     (fst (resolve_screen example_env (example_controller Map.empty))) k = None"
  unfolding resolve_example_empty by (simp add: cache_lookup_def example_controller_def)

lemma live_midpoint:
  assumes "cache_lookup (snd (resolve_screen env s)) (fst (resolve_screen env s)) (get_element_key q) = None"
      and "ui_dump env = Tree root"
      and "root_find (quoted env) root q = Inr (Some e)"
      and "elem_get e ''bounds'' = Some (bounds_str x1 y1 x2 y2)"
  shows "fst (find_element env s q) = Inr ((x1 + x2) div 2, (y1 + y2) div 2)"
proof -
  obtain a s1 where r: "resolve_screen env s = (a, s1)" by (cases "resolve_screen env s")
  note f = resolve_screen_facts [OF r]
  have miss: "cache_lookup s1 a (get_element_key q) = None" using assms(1) r by simp
  show ?thesis
  proof (cases "use_cache s \<and> a \<noteq> []")
    case True
    with f(5) obtain c where c: "activity_cache s1 a = Some c" by auto
    with True f(1) assms(2-4) miss r show ?thesis
      by (simp add: find_element_def live_search_def get_ui_hierarchy_tree
            element_center_bounds_str Let_def)
  next
    case False
    with f(1) assms(2-4) miss r show ?thesis
      by (auto simp add: find_element_def live_search_def get_ui_hierarchy_tree
            element_center_bounds_str)
  qed
qed

lemma key_none: "get_element_key query_none = []"
  by (simp add: get_element_key_def query_none_def truthy_def)

section \<open>Facts about the toast monitor\<close>

lemma wait_loop_trace:
  "wait_loop ex T now arr tr = (r, now', tr') \<Longrightarrow>
   \<exists>new. tr' = tr @ new \<and> list_all (\<lambda>x. fst x = T) new
     \<and> (\<exists>b. r = Inr b)
     \<and> (r = Inr True \<longrightarrow> new \<noteq> [] \<and> contains_expected ex (snd (last new))
            \<and> list_all (\<lambda>x. \<not> contains_expected ex (snd x)) (butlast new))
     \<and> (r = Inr False \<longrightarrow> T \<le> int now' \<and> list_all (\<lambda>x. \<not> contains_expected ex (snd x)) new)"
proof (induction ex T now arr tr arbitrary: r now' tr' rule: wait_loop.induct)
  case (1 ex T now arr tr)
  show ?case
  proof (cases "int now < T")
    case False
    with "1.prems" show ?thesis by (subst (asm) wait_loop.simps) auto
  next
    case True
    then have Tpos: "0 \<le> T" by simp
    have "\<exists>toast n1 a1. get_toast T now arr = (Inr toast, n1, a1)"
      using Tpos by (simp add: get_toast_def split: list.split prod.split)
    then obtain toast n1 a1 where g: "get_toast T now arr = (Inr toast, n1, a1)"
      by blast
    show ?thesis
    proof (cases "contains_expected ex toast")
      case hit: True
      with True g "1.prems" have "r = Inr True" "tr' = tr @ [(T, toast)]"
        by (subst (asm) wait_loop.simps, simp)+
      with hit show ?thesis by auto
    next
      case miss: False
      with True g "1.prems" have rec: "wait_loop ex T n1 a1 (tr @ [(T, toast)]) = (r, now', tr')"
        by (subst (asm) wait_loop.simps) simp
      from "1.IH" [OF True g [symmetric] refl refl miss rec]
      obtain new where new: "tr' = (tr @ [(T, toast)]) @ new" "list_all (\<lambda>x. fst x = T) new"
        "\<exists>b. r = Inr b"
        "r = Inr True \<longrightarrow> new \<noteq> [] \<and> contains_expected ex (snd (last new))
            \<and> list_all (\<lambda>x. \<not> contains_expected ex (snd x)) (butlast new)"
        "r = Inr False \<longrightarrow> T \<le> int now' \<and> list_all (\<lambda>x. \<not> contains_expected ex (snd x)) new"
        by auto
      show ?thesis
        using new miss by (intro exI [of _ "(T, toast) # new"]) (auto simp: butlast_append)
    qed
  qed
qed

declare wait_loop.simps [simp del]

lemma py_in_sublist: "py_in sub s = sublist sub s"
  by (induction s) (auto simp: sublist_Cons_right)

lemma contains_expected_Some: "contains_expected ex (Some m) = expected_in ex m"
  by (simp add: contains_expected_def expected_in_def py_in_sublist)

lemma wait_loop_expired:
  "\<not> int now < T \<Longrightarrow> wait_loop ex T now arr tr = (Inr False, now, tr)"
  by (subst wait_loop.simps) simp

lemma wait_loop_empty:
  "int now < T \<Longrightarrow> wait_loop ex T now [] tr = (Inr False, now + nat T, tr @ [(T, None)])"
  by (subst wait_loop.simps)
     (simp add: get_toast_def contains_expected_def wait_loop_expired)

lemma wait_loop_late:
  "int now < T \<Longrightarrow> int now + T < int t \<Longrightarrow>
   wait_loop ex T now ((t, m) # rest) tr = (Inr False, now + nat T, tr @ [(T, None)])"
  by (subst wait_loop.simps)
     (simp add: get_toast_def contains_expected_def wait_loop_expired)

lemma wait_loop_hit:
  "int now < T \<Longrightarrow> int t \<le> int now + T \<Longrightarrow> expected_in ex m \<Longrightarrow>
   wait_loop ex T now ((t, m) # rest) tr = (Inr True, max now t, tr @ [(T, Some m)])"
  by (subst wait_loop.simps) (simp add: get_toast_def contains_expected_Some)

lemma wait_loop_pass:
  "int now < T \<Longrightarrow> int t \<le> int now + T \<Longrightarrow> \<not> expected_in ex m \<Longrightarrow>
   wait_loop ex T now ((t, m) # rest) tr = wait_loop ex T (max now t) rest (tr @ [(T, Some m)])"
  by (subst wait_loop.simps) (simp add: get_toast_def contains_expected_Some)

lemma wait_loop_found:
  assumes "list_all (\<lambda>x. \<not> expected_in ex (snd x)) pre" and "expected_in ex m"
      and "in_time T now (map fst pre @ [t])"
  shows "wait_loop ex T now (pre @ (t, m) # rest) tr =
           (Inr True, clock_after now (map fst pre @ [t]),
            tr @ map (\<lambda>x. (T, Some (snd x))) (pre @ [(t, m)]))"
  using assms
proof (induction pre arbitrary: now tr)
  case Nil
  then show ?case by (simp add: wait_loop_hit clock_after_def)
next
  case (Cons p pre)
  obtain t0 m0 where p: "p = (t0, m0)" by (cases p)
  from Cons.prems p have a: "int now < T" "int t0 \<le> int now + T" "\<not> expected_in ex m0"
    "list_all (\<lambda>x. \<not> expected_in ex (snd x)) pre" "in_time T (max now t0) (map fst pre @ [t])"
    by simp_all
  from Cons.IH [OF a(4) Cons.prems(2) a(5), of "tr @ [(T, Some m0)]"] a(1-3) p
  show ?case by (simp add: wait_loop_pass clock_after_def)
qed

lemma wait_loop_true_only_if:
  "fst (wait_loop ex T now arr tr) = Inr True \<Longrightarrow>
   \<exists>pre t m rest. arr = pre @ (t, m) # rest
      \<and> list_all (\<lambda>x. \<not> expected_in ex (snd x)) pre \<and> expected_in ex m
      \<and> in_time T now (map fst pre @ [t])"
proof (induction arr arbitrary: now tr)
  case Nil
  then show ?case by (cases "int now < T") (simp_all add: wait_loop_expired wait_loop_empty)
next
  case (Cons p arr)
  obtain t0 m0 where p: "p = (t0, m0)" by (cases p)
  show ?case
  proof (cases "int now < T")
    case False
    with Cons.prems show ?thesis by (simp add: wait_loop_expired)
  next
    case True
    show ?thesis
    proof (cases "int t0 \<le> int now + T")
      case False
      with True Cons.prems p show ?thesis by (simp add: wait_loop_late)
    next
      case intime: True
      show ?thesis
      proof (cases "expected_in ex m0")
        case True
        with \<open>int now < T\<close> intime p show ?thesis
          by (intro exI [of _ "[]"] exI [of _ t0] exI [of _ m0] exI [of _ arr]) simp
      next
        case False
        with \<open>int now < T\<close> intime p Cons.prems
        have "fst (wait_loop ex T (max now t0) arr (tr @ [(T, Some m0)])) = Inr True"
          by (simp add: wait_loop_pass)
        from Cons.IH [OF this] obtain pre t m rest where d: "arr = pre @ (t, m) # rest"
          "list_all (\<lambda>x. \<not> expected_in ex (snd x)) pre" "expected_in ex m"
          "in_time T (max now t0) (map fst pre @ [t])" by blast
        with False \<open>int now < T\<close> intime p show ?thesis
          by (intro exI [of _ "(t0, m0) # pre"] exI [of _ t] exI [of _ m] exI [of _ rest]) simp
      qed
    qed
  qed
qed

lemma expected_examples: "\<not> expected_in ''b'' ''a''" "expected_in ''b'' ''xbx''"
  by (simp_all add: expected_in_def sublist_Cons_right)



section \<open>The cache hit\<close>

text \<open>
  C1. Caching is on and the resolver reports a non-empty screen identity. Once a query
  has been resolved on that screen, a second \<open>find_element\<close> for the same query, while
  the resolver still reports the same identity, returns the same coordinates; it changes
  nothing but the current activity, and in particular does not call
  \<open>_get_ui_hierarchy\<close>, whatever the device would answer to a dump.
\<close>

theorem cache_hit_idempotent:
  assumes "use_cache s"
      and "focus_match env = Some g" and "sanitize_activity_name (py_strip g) = a" and "a \<noteq> []"
      and "find_element env s q = (Inr xy, s1)"
      and "focus_match env' = Some g'" and "sanitize_activity_name (py_strip g') = a"
  shows "find_element env' s1 q = (Inr xy, s1\<lparr>current_activity := Some a\<rparr>)
       \<and> snapshot_calls (snd (find_element env' s1 q)) = snapshot_calls s1"
proof -
  have "fst (resolve_screen env s) = a"
    using assms(1-3) by (simp add: resolve_screen_def get_current_activity_def Let_def)
  then obtain s0 where r: "resolve_screen env s = (a, s0)"
    by (cases "resolve_screen env s") simp
  note f = resolve_screen_facts [OF r]
  have "use_cache s1 \<and> (\<exists>c. activity_cache s1 a = Some c \<and> c (get_element_key q) = Some xy)"
  proof (cases "cache_lookup s0 a (get_element_key q)")
    case None
    with assms(5) r have "live_search env s0 a q = (Inr xy, s1)"
      by (simp add: find_element_def)
    then show ?thesis using f(1) assms(1,4) by (intro live_search_success) simp_all
  next
    case (Some center)
    with assms(5) r have "center = xy" "s1 = s0" by (simp_all add: find_element_def)
    with Some f(1) assms(1) show ?thesis
      by (auto simp: cache_lookup_def split: if_splits option.splits)
  qed
  then obtain c where c: "use_cache s1" "activity_cache s1 a = Some c" "c (get_element_key q) = Some xy"
    by blast
  have "find_element env' s1 q = (Inr xy, s1\<lparr>current_activity := Some a\<rparr>)"
    using c(1) assms(6,7,4) c(2,3) by (rule find_element_hit)
  then show ?thesis by simp
qed

theorem cache_hit_idempotent_witness:
  "find_element example_env (example_controller Map.empty) query_cancel = (Inr (1, 1), resolved_controller)
   \<and> find_element offline_env resolved_controller query_cancel
       = (Inr (1, 1), resolved_controller\<lparr>current_activity := Some ''com.app_.Main''\<rparr>)
   \<and> snapshot_calls (snd (find_element offline_env resolved_controller query_cancel)) = 1"
proof -
  have 1: "use_cache (example_controller Map.empty)" by (simp add: example_controller_def)
  have 2: "focus_match example_env = Some ''com.app/.Main t12''" by (simp add: example_env_def)
  have 3: "(''com.app_.Main'' :: string) \<noteq> []" by simp
  have 4: "focus_match offline_env = Some ''com.app/.Main''" by (simp add: offline_env_def)
  from cache_hit_idempotent [OF 1 2 sanitize_example 3 first_resolution 4 sanitize_example2]
  show ?thesis by (simp add: first_resolution resolved_controller_def)
qed

section \<open>A query that matches no node\<close>

text \<open>
  C2, as stated, fails on a stale cache entry: the tree of the example screen has no node
  with the text \<open>OK\<close>, but the cache of that screen holds the key, so \<open>find_element\<close>
  returns the cached coordinates and \<open>check_element_exists\<close> returns true.
\<close>

theorem not_found_counterexample:
  "list_all (\<lambda>e. \<not> matches query_ok e) (descendants example_tree)
   \<and> fst (find_element example_env (example_controller (stale_cache ''text=OK'')) query_ok) = Inr (5, 5)
   \<and> fst (check_element_exists example_env (example_controller (stale_cache ''text=OK'')) query_ok) = Inr True"
proof -
  have k: "get_element_key query_ok = ''text=OK''"
    by (simp add: get_element_key_def query_ok_def truthy_def)
  have 1: "list_all (\<lambda>e. \<not> matches query_ok e) (descendants example_tree)"
    by (simp add: descendants_example matches_def conditions_def query_ok_def truthy_def elem_get_def)
  have 2: "find_element example_env (example_controller (stale_cache ''text=OK'')) query_ok
         = (Inr (5, 5), (example_controller (stale_cache ''text=OK''))\<lparr>current_activity := Some ''com.app_.Main''\<rparr>)"
    unfolding find_element_def resolve_example k
    by (simp add: cache_lookup_def example_controller_def stale_cache_def)
  show ?thesis using 1 2 by (simp add: check_element_exists_def)
qed

text \<open>
  C2, amended. A query with at most one predicate, whose value has no double quote, that
  is not answered from the cache and matches no node of the snapshot: \<open>find_element\<close>
  raises \<open>ValueError\<close>, \<open>check_element_exists\<close> returns false, no screen gains or
  loses an element entry, and no file other than the snapshot file is written.
\<close>

theorem not_found_on_live_search:
  assumes "cache_lookup (snd (resolve_screen env s)) (fst (resolve_screen env s)) (get_element_key q) = None"
      and "ui_dump env = Tree root"
      and "length (conditions q) \<le> 1" and "\<not> has_quote (conditions q)"
      and "list_all (\<lambda>e. \<not> matches q e) (descendants root)"
  shows "fst (find_element env s q) = Inl ValueError
       \<and> fst (check_element_exists env s q) = Inr False
       \<and> (\<forall>a k. cache_entry (snd (find_element env s q)) a k = cache_entry s a k)
       \<and> (\<forall>n. n \<noteq> ''temp_ui.xml'' \<longrightarrow>
             map_of (files (snd (find_element env s q))) n = map_of (files s) n)"
proof -
  obtain a s1 where r: "resolve_screen env s = (a, s1)" by (cases "resolve_screen env s")
  note f = resolve_screen_facts [OF r]
  have miss: "cache_lookup s1 a (get_element_key q) = None" using assms(1) r by simp
  have nf: "root_find (quoted env) root q = Inr None"
    using assms(3-5) by (rule root_find_no_match)
  have fe: "find_element env s q =
     (Inl ValueError, s1\<lparr>current_activity := None, snapshot_calls := snapshot_calls s1 + 1,
                  files := write_file ''temp_ui.xml'' (UiDump root) (files s1)\<rparr>)"
    using r miss nf assms(2)
    by (simp add: find_element_def live_search_def get_ui_hierarchy_tree)
  have 1: "fst (find_element env s q) = Inl ValueError" by (simp add: fe)
  have 2: "fst (check_element_exists env s q) = Inr False"
    by (simp add: check_element_exists_def fe)
  have 3: "\<forall>a k. cache_entry (snd (find_element env s q)) a k = cache_entry s a k"
    using f(6) by (simp add: fe cache_entry_def)
  have 4: "\<forall>n. n \<noteq> ''temp_ui.xml'' \<longrightarrow>
             map_of (files (snd (find_element env s q))) n = map_of (files s) n"
    using f(3) by (simp add: fe map_of_write_file)
  from 1 2 3 4 show ?thesis by blast
qed

theorem not_found_on_live_search_witness:
  "fst (find_element example_env (example_controller Map.empty) query_ok) = Inl ValueError
   \<and> fst (check_element_exists example_env (example_controller Map.empty) query_ok) = Inr False
   \<and> cache_entry (snd (find_element example_env (example_controller Map.empty) query_ok))
        ''com.app_.Main'' ''text=OK'' = None
   \<and> map_of (files (snd (find_element example_env (example_controller Map.empty) query_ok)))
        ''emu_com.app_.Main.json'' = None"
proof -
  have 2: "ui_dump example_env = Tree example_tree" by (simp add: example_env_def)
  have 3: "length (conditions query_ok) \<le> 1"
    by (simp add: conditions_def query_ok_def truthy_def)
  have 4: "\<not> has_quote (conditions query_ok)"
    by (simp add: has_quote_def conditions_def query_ok_def truthy_def)
  from not_found_on_live_search [OF miss_on_empty 2 3 4 ok_no_match]
  show ?thesis by (simp add: cache_entry_def example_controller_def)
qed

text \<open>
  The amended statement leaves queries with several predicates aside. For these the live
  search does not get as far as looking for a node: the path holds two comparisons joined
  by \<open>and\<close>, \<open>find\<close> raises \<open>SyntaxError\<close>, and \<open>check_element_exists\<close>, which catches
  \<open>ValueError\<close> only, lets it through.
\<close>

lemma two_predicates_syntax_error:
  "xpath query_two = ''.//node[@text='' @ [CHR 0x22] @ ''Cancel'' @ [CHR 0x22] @ '' and @class=''
                      @ [CHR 0x22] @ ''android.widget.Button'' @ [CHR 0x22] @ '']''
   \<and> fst (find_element example_env (example_controller Map.empty) query_two) = Inl SyntaxError
   \<and> fst (check_element_exists example_env (example_controller Map.empty) query_two) = Inl SyntaxError"
proof -
  have c: "conditions query_two = [(''text'', ''Cancel''), (''class'', ''android.widget.Button'')]"
    by (simp add: conditions_def query_two_def truthy_def)
  have x: "xpath query_two = ''.//node[@text='' @ [CHR 0x22] @ ''Cancel'' @ [CHR 0x22] @ '' and @class=''
                      @ [CHR 0x22] @ ''android.widget.Button'' @ [CHR 0x22] @ '']''"
    by (simp add: xpath_def c condition_str_def)
  have r: "root_find (quoted example_env) example_tree query_two = Inl SyntaxError"
    by (simp add: root_find_def c has_quote_def)
  have u: "ui_dump example_env = Tree example_tree" by (simp add: example_env_def)
  have f: "fst (find_element example_env (example_controller Map.empty) query_two) = Inl SyntaxError"
    unfolding find_element_def resolve_example_empty
    by (simp add: cache_lookup_def example_controller_def live_search_def
          get_ui_hierarchy_tree [OF u] r)
  then have "fst (check_element_exists example_env (example_controller Map.empty) query_two) = Inl SyntaxError"
    by (cases "find_element example_env (example_controller Map.empty) query_two")
       (simp add: check_element_exists_def)
  with x f show ?thesis by blast
qed

section \<open>The midpoint\<close>

text \<open>
  C5. When the live search matches a node whose bounds string is \<open>[x1,y1][x2,y2]\<close>,
  \<open>find_element\<close> returns \<open>((x1 + x2) div 2, (y1 + y2) div 2)\<close>, the division rounding
  down; the bounds \<open>[10,20][30,60]\<close> give \<open>(20, 40)\<close> and \<open>[0,0][1,1]\<close> give \<open>(0, 0)\<close>.
\<close>

theorem midpoint_of_matched_node:
  assumes "cache_lookup (snd (resolve_screen env s)) (fst (resolve_screen env s)) (get_element_key q) = None"
      and "ui_dump env = Tree root"
      and "root_find (quoted env) root q = Inr (Some e)"
      and "elem_get e ''bounds'' = Some (bounds_str x1 y1 x2 y2)"
  shows "fst (find_element env s q) = Inr ((x1 + x2) div 2, (y1 + y2) div 2)
       \<and> element_center ''[10,20][30,60]'' = Inr (20, 40)
       \<and> element_center ''[0,0][1,1]'' = Inr (0, 0)"
  using live_midpoint [OF assms] by (simp add: center_examples)

theorem midpoint_of_matched_node_witness:
  "fst (find_element example_env (example_controller Map.empty) query_cancel) = Inr ((0 + 2) div 2, (0 + 2) div 2)"
proof -
  have 2: "ui_dump example_env = Tree example_tree" by (simp add: example_env_def)
  have 4: "elem_get (Element ''node'' [(''text'', ''Cancel''), (''bounds'', ''[0,0][2,2]'')] []) ''bounds''
           = Some (bounds_str 0 0 2 2)"
    by (simp add: elem_get_def bounds_examples)
  from midpoint_of_matched_node [OF miss_on_empty 2 root_find_cancel 4]
  show ?thesis by simp
qed

section \<open>A query without predicates\<close>

text \<open>
  C10, as stated, fails on a cached entry: the key of a query without predicates is the
  empty string, and when the cache of the current screen holds that key, \<open>find_element\<close>
  returns the cached \<open>(5, 5)\<close> and not the midpoint \<open>(20, 40)\<close> of the first node of
  the tree.
\<close>

theorem no_predicate_counterexample:
  "find (\<lambda>e. tag e = ''node'') (descendants example_tree)
     = Some (Element ''node'' [(''class'', ''android.widget.FrameLayout''), (''bounds'', ''[10,20][30,60]'')]
          [Element ''node'' [(''text'', ''Cancel''), (''bounds'', ''[0,0][2,2]'')] []])
   \<and> element_center ''[10,20][30,60]'' = Inr (20, 40)
   \<and> fst (find_element example_env (example_controller (stale_cache [])) query_none) = Inr (5, 5)"
proof -
  have "find_element example_env (example_controller (stale_cache [])) query_none
         = (Inr (5, 5), (example_controller (stale_cache []))\<lparr>current_activity := Some ''com.app_.Main''\<rparr>)"
    unfolding find_element_def resolve_example key_none
    by (simp add: cache_lookup_def example_controller_def stale_cache_def)
  then show ?thesis by (simp add: descendants_example center_examples)
qed

text \<open>
  C10, amended. With no predicate (each argument \<open>None\<close> or empty) the query is not
  rejected: its key is empty and its path is \<open>.//node\<close>. When it is not answered from
  the cache and the snapshot has a first node, with bounds \<open>[x1,y1][x2,y2]\<close>,
  \<open>find_element\<close> returns the midpoint of that node.
\<close>

theorem no_predicate_search:
  assumes "\<not> truthy (resource_id q)" and "\<not> truthy (elem_text q)" and "\<not> truthy (class_name q)"
      and "cache_lookup (snd (resolve_screen env s)) (fst (resolve_screen env s)) (get_element_key q) = None"
      and "ui_dump env = Tree root"
      and "find (\<lambda>e. tag e = ''node'') (descendants root) = Some e"
      and "elem_get e ''bounds'' = Some (bounds_str x1 y1 x2 y2)"
  shows "get_element_key q = [] \<and> xpath q = ''.//node''
       \<and> fst (find_element env s q) = Inr ((x1 + x2) div 2, (y1 + y2) div 2)"
proof -
  have c: "conditions q = []" using assms(1-3) by (simp add: conditions_def)
  then have "root_find (quoted env) root q = Inr (Some e)"
    using assms(6) by (simp add: root_find_def has_quote_def)
  from live_midpoint [OF assms(4,5) this assms(7)] c assms(1-3) show ?thesis
    by (simp add: get_element_key_def xpath_def)
qed

theorem no_predicate_search_witness:
  "get_element_key query_none = [] \<and> xpath query_none = ''.//node''
   \<and> fst (find_element example_env (example_controller Map.empty) query_none) = Inr (20, 40)"
proof -
  have t: "\<not> truthy (resource_id query_none)" "\<not> truthy (elem_text query_none)"
    "\<not> truthy (class_name query_none)"
    by (simp_all add: query_none_def truthy_def)
  have 5: "ui_dump example_env = Tree example_tree" by (simp add: example_env_def)
  have 6: "find (\<lambda>e. tag e = ''node'') (descendants example_tree)
     = Some (Element ''node'' [(''class'', ''android.widget.FrameLayout''), (''bounds'', ''[10,20][30,60]'')]
          [Element ''node'' [(''text'', ''Cancel''), (''bounds'', ''[0,0][2,2]'')] []])"
    by (simp add: descendants_example)
  have 7: "elem_get (Element ''node'' [(''class'', ''android.widget.FrameLayout''), (''bounds'', ''[10,20][30,60]'')]
          [Element ''node'' [(''text'', ''Cancel''), (''bounds'', ''[0,0][2,2]'')] []]) ''bounds''
       = Some (bounds_str 10 20 30 60)"
    by (simp add: elem_get_def bounds_examples)
  from no_predicate_search [OF t miss_on_empty 5 6 7] show ?thesis by simp
qed

section \<open>Saving and loading\<close>

text \<open>
  C3. The round trip fails for a screen whose sanitized identity contains \<open>.json\<close>:
  the activity \<open>com.example.jsonviewer/.MainActivity\<close> is saved under the file name
  \<open>emu_com.example.jsonviewer_.MainActivity.json\<close>, and the loader, which removes every
  \<open>.json\<close> from the name, files its cache under \<open>com.exampleviewer_.MainActivity\<close>;
  the screen that was saved has no cache after the load.
\<close>

theorem roundtrip_loses_screen:
  "sanitize_activity_name ''com.example.jsonviewer/.MainActivity'' = ''com.example.jsonviewer_.MainActivity''
   \<and> files (save_activity_cache (example_controller Map.empty)
              ''com.example.jsonviewer_.MainActivity'' [''id=x'' \<mapsto> (1, 2)])
       = [(''emu_com.example.jsonviewer_.MainActivity.json'', CacheJson [''id=x'' \<mapsto> (1, 2)])]
   \<and> preload_activity_cache ''emu'' True
        [(''emu_com.example.jsonviewer_.MainActivity.json'', CacheJson [''id=x'' \<mapsto> (1, 2)])]
       = [''com.exampleviewer_.MainActivity'' \<mapsto> [''id=x'' \<mapsto> (1, 2)]]
   \<and> preload_activity_cache ''emu'' True
        [(''emu_com.example.jsonviewer_.MainActivity.json'', CacheJson [''id=x'' \<mapsto> (1, 2)])]
        ''com.example.jsonviewer_.MainActivity'' = None"
proof -
  have 1: "sanitize_activity_name ''com.example.jsonviewer/.MainActivity'' = ''com.example.jsonviewer_.MainActivity''"
    by (simp add: sanitize_activity_name_def match_task_id_def match_t_def
        match_digits_def py_isspace_def py_isdigit_def replace_illegal_def illegal_chars_def)
  have 2: "sanitize_activity_name ''com.example.jsonviewer_.MainActivity'' = ''com.example.jsonviewer_.MainActivity''"
    using sanitize_twice [of "''com.example.jsonviewer/.MainActivity''"] by (simp only: 1)
  have 3: "files (save_activity_cache (example_controller Map.empty)
              ''com.example.jsonviewer_.MainActivity'' [''id=x'' \<mapsto> (1, 2)])
       = [(''emu_com.example.jsonviewer_.MainActivity.json'', CacheJson [''id=x'' \<mapsto> (1, 2)])]"
    by (simp add: save_activity_cache_def 2 example_controller_def cache_file_name_def)
  have 4: "preload_activity_cache ''emu'' True
        [(''emu_com.example.jsonviewer_.MainActivity.json'', CacheJson [''id=x'' \<mapsto> (1, 2)])]
       = [''com.exampleviewer_.MainActivity'' \<mapsto> [''id=x'' \<mapsto> (1, 2)]]"
    by (simp add: preload_activity_cache_def py_endswith_def py_startswith_def py_split1_def
          suffix_def prefix_def)
  show ?thesis using 1 3 4 by simp
qed

section \<open>Sanitizing twice\<close>

text \<open>
  C9. \<open>_sanitize_activity_name\<close> is idempotent. So the second sanitization, in
  \<open>_save_activity_cache\<close>, of an identity that \<open>_get_current_activity\<close> returned leaves
  it as it is: the file is named after the very key under which the cache is held in
  memory.
\<close>

theorem sanitize_idempotent:
  "sanitize_activity_name (sanitize_activity_name name) = sanitize_activity_name name
   \<and> files (save_activity_cache s (fst (get_current_activity env s)) d)
       = (if use_cache s
          then write_file (cache_file_name (device s) (fst (get_current_activity env s)))
                 (CacheJson d) (files s)
          else files s)"
proof -
  have "sanitize_activity_name (fst (get_current_activity env s)) = fst (get_current_activity env s)"
  proof (cases "focus_match env")
    case None
    then show ?thesis by (simp add: get_current_activity_def sanitize_activity_name_def)
  next
    case (Some g)
    then show ?thesis by (simp add: get_current_activity_def sanitize_twice Let_def)
  qed
  then show ?thesis by (simp add: sanitize_twice save_activity_cache_def)
qed

theorem sanitize_idempotent_witness:
  "sanitize_activity_name (sanitize_activity_name ''com.app/.Main t12'') = ''com.app_.Main''
   \<and> files (save_activity_cache (example_controller Map.empty)
        (fst (get_current_activity example_env (example_controller Map.empty))) Map.empty)
      = [(''emu_com.app_.Main.json'', CacheJson Map.empty)]"
proof -
  have 1: "sanitize_activity_name ''com.app/.Main t12'' = ''com.app_.Main''"
    by (simp add: sanitize_activity_name_def match_task_id_def match_t_def
        match_digits_def py_isspace_def py_isdigit_def replace_illegal_def illegal_chars_def)
  have 2: "fst (get_current_activity example_env (example_controller Map.empty)) = ''com.app_.Main''"
    by (simp add: get_current_activity_def example_env_def sanitize_example Let_def)
  note t = sanitize_idempotent [of "''com.app/.Main t12''" "example_controller Map.empty" example_env Map.empty]
  from t have a: "sanitize_activity_name (sanitize_activity_name ''com.app/.Main t12'') = ''com.app_.Main''"
    by (simp only: 1)
  from t have "files (save_activity_cache (example_controller Map.empty)
        (fst (get_current_activity example_env (example_controller Map.empty))) Map.empty)
      = (if use_cache (example_controller Map.empty)
          then write_file (cache_file_name (device (example_controller Map.empty)) ''com.app_.Main'')
                 (CacheJson Map.empty) (files (example_controller Map.empty))
          else files (example_controller Map.empty))"
    by (simp only: 2)
  then have b: "files (save_activity_cache (example_controller Map.empty)
        (fst (get_current_activity example_env (example_controller Map.empty))) Map.empty)
      = [(''emu_com.app_.Main.json'', CacheJson Map.empty)]"
    by (simp add: example_controller_def cache_file_name_def)
  from a b show ?thesis by blast
qed

section \<open>Waiting with the full timeout\<close>

text \<open>
  C6. \<open>wait_for_toast\<close> pops from the queue until it returns, and every pop is granted
  the original timeout, counted from the start of that pop, not what is left of it.
  It returns true exactly when the queue brings a first message containing the expected
  text and that message and all before it are popped in time, in the sense of
  \<open>in_time\<close>; it then returns at the tick at which that message is popped. Otherwise it
  returns false, and not before the time elapsed has reached the timeout. So after one
  unrelated message at a tick \<open>t1\<close> before the timeout, the call ends at tick
  \<open>t1 + timeout\<close>. (The list it also yields names the timeout of each pop.)
\<close>

theorem wait_for_toast_full_timeout:
  "(fst (wait_for_toast expected_text timeout arrivals) = Inr True \<longleftrightarrow>
      (\<exists>pre t m rest. arrivals = pre @ (t, m) # rest
         \<and> list_all (\<lambda>x. \<not> expected_in expected_text (snd x)) pre
         \<and> expected_in expected_text m
         \<and> in_time timeout 0 (map fst pre @ [t])))
   \<and> (\<forall>pre t m rest. arrivals = pre @ (t, m) # rest
         \<and> list_all (\<lambda>x. \<not> expected_in expected_text (snd x)) pre
         \<and> expected_in expected_text m
         \<and> in_time timeout 0 (map fst pre @ [t])
        \<longrightarrow> fst (snd (wait_for_toast expected_text timeout arrivals))
              = clock_after 0 (map fst pre @ [t]))
   \<and> (fst (wait_for_toast expected_text timeout arrivals) \<noteq> Inr True \<longrightarrow>
        fst (wait_for_toast expected_text timeout arrivals) = Inr False
        \<and> timeout \<le> int (fst (snd (wait_for_toast expected_text timeout arrivals))))
   \<and> list_all (\<lambda>c. fst c = timeout) (snd (snd (wait_for_toast expected_text timeout arrivals)))
   \<and> (int t1 < timeout \<and> \<not> expected_in expected_text m1 \<longrightarrow>
        wait_for_toast expected_text timeout [(t1, m1)]
          = (Inr False, t1 + nat timeout, [(timeout, Some m1), (timeout, None)]))"
proof -
  let ?w = "wait_for_toast expected_text timeout arrivals"
  let ?sched = "\<lambda>pre t m rest. arrivals = pre @ (t, m) # rest
         \<and> list_all (\<lambda>x. \<not> expected_in expected_text (snd x)) pre
         \<and> expected_in expected_text m
         \<and> in_time timeout 0 (map fst pre @ [t])"
  have found: "?w = (Inr True, clock_after 0 (map fst pre @ [t]),
                     map (\<lambda>x. (timeout, Some (snd x))) (pre @ [(t, m)]))"
    if "?sched pre t m rest" for pre t m rest
    using that wait_loop_found [of expected_text pre m timeout 0 t rest "[]"]
    by (simp add: wait_for_toast_def)
  have 1: "fst ?w = Inr True \<longleftrightarrow> (\<exists>pre t m rest. ?sched pre t m rest)"
  proof
    assume "fst ?w = Inr True"
    then show "\<exists>pre t m rest. ?sched pre t m rest"
      unfolding wait_for_toast_def by (rule wait_loop_true_only_if)
  next
    assume "\<exists>pre t m rest. ?sched pre t m rest"
    then obtain pre t m rest where "?sched pre t m rest" by blast
    from found [OF this] show "fst ?w = Inr True" by simp
  qed
  have 2: "\<forall>pre t m rest. ?sched pre t m rest \<longrightarrow>
             fst (snd ?w) = clock_after 0 (map fst pre @ [t])"
    using found by simp
  obtain r el tr where w: "wait_loop expected_text timeout 0 arrivals [] = (r, el, tr)"
    by (cases "wait_loop expected_text timeout 0 arrivals []")
  from wait_loop_trace [OF w]
  have t: "list_all (\<lambda>x. fst x = timeout) tr" "\<exists>b. r = Inr b" "r = Inr False \<longrightarrow> timeout \<le> int el"
    by auto
  have 3: "fst ?w \<noteq> Inr True \<longrightarrow> fst ?w = Inr False \<and> timeout \<le> int (fst (snd ?w))"
    using t(2,3) w by (auto simp: wait_for_toast_def)
  have 4: "list_all (\<lambda>c. fst c = timeout) (snd (snd ?w))"
    using t(1) w by (simp add: wait_for_toast_def)
  have 5: "int t1 < timeout \<and> \<not> expected_in expected_text m1 \<longrightarrow>
        wait_for_toast expected_text timeout [(t1, m1)]
          = (Inr False, t1 + nat timeout, [(timeout, Some m1), (timeout, None)])"
  proof
    assume a: "int t1 < timeout \<and> \<not> expected_in expected_text m1"
    then have "wait_loop expected_text timeout 0 [(t1, m1)] []
                 = wait_loop expected_text timeout (max 0 t1) [] ([] @ [(timeout, Some m1)])"
      by (intro wait_loop_pass) simp_all
    also have "\<dots> = (Inr False, t1 + nat timeout, [(timeout, Some m1), (timeout, None)])"
      using a by (simp add: wait_loop_empty)
    finally show "wait_for_toast expected_text timeout [(t1, m1)]
          = (Inr False, t1 + nat timeout, [(timeout, Some m1), (timeout, None)])"
      by (simp add: wait_for_toast_def)
  qed
  from 1 2 3 4 5 show ?thesis by blast
qed

text \<open>
  With a timeout of 10 ticks and an unrelated toast at tick 9, the expected toast at
  tick 12 is still accepted; without it the call returns false at tick 19.
\<close>

theorem wait_for_toast_full_timeout_witness:
  "fst (wait_for_toast ''b'' 10 [(9, ''a''), (12, ''xbx'')]) = Inr True
   \<and> fst (snd (wait_for_toast ''b'' 10 [(9, ''a''), (12, ''xbx'')])) = 12
   \<and> wait_for_toast ''b'' 10 [(9, ''a'')] = (Inr False, 19, [(10, Some ''a''), (10, None)])"
proof -
  have s: "[(9, ''a''), (12, ''xbx'')] = [(9 :: nat, ''a'')] @ (12, ''xbx'') # []
         \<and> list_all (\<lambda>x. \<not> expected_in ''b'' (snd x)) [(9 :: nat, ''a'')]
         \<and> expected_in ''b'' ''xbx''
         \<and> in_time 10 0 (map fst [(9 :: nat, ''a'')] @ [12])"
    by (simp add: expected_examples)
  note w = wait_for_toast_full_timeout [of "''b''" 10 "[(9, ''a''), (12, ''xbx'')]" 9 "''a''"]
  from w s have 1: "fst (wait_for_toast ''b'' 10 [(9, ''a''), (12, ''xbx'')]) = Inr True"
    by blast
  from w s have "fst (snd (wait_for_toast ''b'' 10 [(9, ''a''), (12, ''xbx'')]))
                   = clock_after 0 (map fst [(9 :: nat, ''a'')] @ [12])"
    by blast
  then have 2: "fst (snd (wait_for_toast ''b'' 10 [(9, ''a''), (12, ''xbx'')])) = 12"
    by (simp add: clock_after_def)
  from w have 3: "wait_for_toast ''b'' 10 [(9, ''a'')] = (Inr False, 19, [(10, Some ''a''), (10, None)])"
    by (simp add: expected_examples)
  from 1 2 3 show ?thesis by blast
qed

section \<open>A listener that raises\<close>



section \<open>The states of the monitor\<close>

text \<open>
  C8. The monitor is Running or Stopped. Started while Running, it only prints a line:
  no thread is spawned and it stays Running. Started while Stopped, it spawns one listener
  thread and is Running. Stopping leaves it Stopped, whether or not the key events
  succeed. An exception that only the outer handler of the listener catches, in an
  iteration of the loop or when the event process is opened, leaves it Stopped.
\<close>

theorem monitor_state_machine:
  "(monitor_state m = Running \<or> monitor_state m = Stopped)
   \<and> (monitor_state m = Running \<longrightarrow>
        start_toast_monitor m = m\<lparr>printed := printed m @ [AlreadyRunning]\<rparr>)
   \<and> (monitor_state m = Stopped \<longrightarrow>
        monitor_state (start_toast_monitor m) = Running
        \<and> threads_started (start_toast_monitor m) = threads_started m + 1)
   \<and> monitor_state (snd (stop_toast_monitor nudge_ok m)) = Stopped
   \<and> monitor_state (monitor_loop m (Failure x # es)) = Stopped
   \<and> monitor_state (monitor_toast (Some x) m es) = Stopped"
  by (simp add: monitor_state_def start_toast_monitor_def stop_toast_monitor_def
        monitor_toast_def Let_def)

theorem monitor_state_machine_witness:
  "start_toast_monitor example_monitor = example_monitor\<lparr>printed := [AlreadyRunning]\<rparr>
   \<and> monitor_state (start_toast_monitor (snd (stop_toast_monitor True example_monitor))) = Running
   \<and> threads_started (start_toast_monitor (snd (stop_toast_monitor True example_monitor))) = 2
   \<and> monitor_state (snd (stop_toast_monitor True example_monitor)) = Stopped
   \<and> monitor_state (monitor_loop example_monitor [Failure ''broken pipe'']) = Stopped"
proof -
  have r: "monitor_state example_monitor = Running"
    by (simp add: monitor_state_def example_monitor_def)
  have s: "monitor_state (snd (stop_toast_monitor True example_monitor)) = Stopped"
    using monitor_state_machine [of example_monitor True "''x''" "[]"] by blast
  have t: "threads_started (snd (stop_toast_monitor True example_monitor)) = 1"
    by (simp add: stop_toast_monitor_def example_monitor_def Let_def)
  from monitor_state_machine [of example_monitor True "''broken pipe''" "[]"] r
       monitor_state_machine [of "snd (stop_toast_monitor True example_monitor)" True "''x''" "[]"] s t
  show ?thesis by (simp add: example_monitor_def)
qed

end
